theory Spec2Isabelle
  imports Main "HOL-Library.Word"
begin

unbundle bit_operations_syntax

section \<open>Data model of \<open>win32_display.h\<close>\<close>

text \<open>
  The header keeps every C \<open>int\<close> in a range where no arithmetic overflows (the queue
  indices stay in \<open>0..63\<close>, the button mask in \<open>0..7\<close>, positions in \<open>0..65535\<close>), so
  an \<open>int\<close> field is a HOL \<open>int\<close>; the one product that can overflow, the byte count
  of \<open>win32_blit_pixels\<close>, is checked against the 32-bit range where it is computed.
  The bit operations \<open>|=\<close>, \<open>&=\<close> and \<open>~\<close> on \<open>int\<close> are the two's complement
  operations \<open>OR\<close>, \<open>AND\<close> and \<open>NOT\<close> of HOL.
\<close>

datatype Win32EventType =
    WIN32_EVENT_NONE
  | WIN32_EVENT_KEY_PRESS
  | WIN32_EVENT_KEY_RELEASE
  | WIN32_EVENT_MOUSE_PRESS
  | WIN32_EVENT_MOUSE_RELEASE
  | WIN32_EVENT_MOUSE_MOVE
  | WIN32_EVENT_CLOSE
  | WIN32_EVENT_RESIZE

text \<open>
  \<open>Win32Event\<close>. Its fields carry the prefix \<open>ev_\<close>, since \<open>mouseX\<close>, \<open>mouseY\<close>,
  \<open>width\<close> and \<open>height\<close> are fields of \<open>Win32Display\<close> too.
\<close>

record Win32Event =
  ev_type :: Win32EventType
  ev_key :: int
  ev_button :: int
  ev_mouseX :: int
  ev_mouseY :: int
  ev_width :: int
  ev_height :: int

text \<open>The event after \<open>memset(&event, 0, sizeof(Win32Event))\<close>.\<close>

definition zero_event :: Win32Event where
  "zero_event = \<lparr>ev_type = WIN32_EVENT_NONE, ev_key = 0, ev_button = 0,
     ev_mouseX = 0, ev_mouseY = 0, ev_width = 0, ev_height = 0\<rparr>"

type_synonym byte = "8 word"

text \<open>A Windows handle (\<open>HWND\<close>, \<open>HDC\<close>, \<open>HBITMAP\<close>); 0 is the null handle.\<close>

type_synonym handle = nat

text \<open>
  \<open>Win32Display\<close>. \<open>pixels\<close> points to the bits of the DIB section, which the session
  owns alone: the field holds the buffer it points to, \<open>None\<close> for a null pointer.
  \<open>events\<close> is the array of 64 slots. The \<open>BITMAPINFO\<close> field \<open>bmi\<close> is left out:
  the code only fills it to pass it to \<open>CreateDIBSection\<close>.
\<close>

record Win32Display =
  hwnd :: handle
  hdc :: handle
  memDC :: handle
  bitmap :: handle
  width :: int
  height :: int
  pixels :: "byte list option"
  shouldClose :: int
  events :: "Win32Event list"
  eventHead :: int
  eventTail :: int
  mouseX :: int
  mouseY :: int
  mouseButtons :: int
  timerFreq :: int
  timerStart :: int

text \<open>The struct as \<open>calloc(1, sizeof(Win32Display))\<close> returns it: every byte zero.\<close>

definition calloc_display :: Win32Display where
  "calloc_display = \<lparr>hwnd = 0, hdc = 0, memDC = 0, bitmap = 0, width = 0, height = 0,
     pixels = None, shouldClose = 0, events = replicate 64 zero_event,
     eventHead = 0, eventTail = 0, mouseX = 0, mouseY = 0, mouseButtons = 0,
     timerFreq = 0, timerStart = 0\<rparr>"

text \<open>C's \<open>%\<close> on \<open>int\<close>: the remainder of the division that truncates towards zero.\<close>

definition c_rem :: "int \<Rightarrow> int \<Rightarrow> int" where
  "c_rem a b = sgn a * (\<bar>a\<bar> mod \<bar>b\<bar>)"

section \<open>The event queue\<close>

text \<open>
  The functions of this section read and write only \<open>*disp\<close>. Each is given as a function
  on the struct a valid \<open>disp\<close> points to; the calls through a pointer that may be
  null follow in the section on the public operations.

  The array is indexed by \<open>eventHead\<close> and \<open>eventTail\<close> only. Both stay in \<open>0..63\<close>
  (\<open>queue_ok\<close>, established by \<open>calloc\<close> and kept by every operation, lemma
  \<open>reachable_queue_ok\<close>), so no access is out of bounds and \<open>eventTail + 1\<close> does
  not overflow.
\<close>

definition win32_push_event :: "Win32Display \<Rightarrow> Win32Event \<Rightarrow> Win32Display" where
  "win32_push_event disp event =
     (let next = c_rem (eventTail disp + 1) 64 in
      if next \<noteq> eventHead disp
      then disp\<lparr>events := (events disp)[nat (eventTail disp) := event], eventTail := next\<rparr>
      else disp)"

definition win32_has_events :: "Win32Display \<Rightarrow> int" where
  "win32_has_events disp = (if eventHead disp \<noteq> eventTail disp then 1 else 0)"

text \<open>
  \<open>win32_pop_event disp event\<close>: \<open>event\<close> is the value the out-parameter points to
  before the call; the result is the return value, \<open>*disp\<close> and \<open>*event\<close> after it.
\<close>

definition win32_pop_event :: "Win32Display \<Rightarrow> Win32Event \<Rightarrow> int \<times> Win32Display \<times> Win32Event" where
  "win32_pop_event disp event =
     (if eventHead disp = eventTail disp then (0, disp, event)
      else (1, disp\<lparr>eventHead := c_rem (eventHead disp + 1) 64\<rparr>,
            events disp ! nat (eventHead disp)))"

definition queue_ok :: "Win32Display \<Rightarrow> bool" where
  "queue_ok disp \<longleftrightarrow>
     length (events disp) = 64 \<and>
     0 \<le> eventHead disp \<and> eventHead disp < 64 \<and>
     0 \<le> eventTail disp \<and> eventTail disp < 64"

text \<open>The events between head and tail, oldest first.\<close>

definition pending :: "Win32Display \<Rightarrow> Win32Event list" where
  "pending disp =
     map (\<lambda>i. events disp ! nat ((eventHead disp + int i) mod 64))
       [0 ..< nat ((eventTail disp - eventHead disp) mod 64)]"

text \<open>Sequences of calls: pushing a list of events, and popping \<open>n\<close> times.
  A pop that returns 0 is recorded as \<open>None\<close>, one that returns 1 as the event
  it wrote to the out-parameter.\<close>

fun push_all :: "Win32Display \<Rightarrow> Win32Event list \<Rightarrow> Win32Display" where
  "push_all disp [] = disp"
| "push_all disp (e # es) = push_all (win32_push_event disp e) es"

fun pop_n :: "nat \<Rightarrow> Win32Display \<Rightarrow> Win32Event option list \<times> Win32Display" where
  "pop_n 0 disp = ([], disp)"
| "pop_n (Suc n) disp =
     (case win32_pop_event disp zero_event of
        (r, disp', ev) \<Rightarrow>
          (case pop_n n disp' of
             (rs, disp'') \<Rightarrow> ((if r = 1 then Some ev else None) # rs, disp'')))"

datatype queue_op = Push Win32Event | Pop

fun queue_step :: "Win32Display \<Rightarrow> queue_op \<Rightarrow> Win32Display" where
  "queue_step disp (Push e) = win32_push_event disp e"
| "queue_step disp Pop = fst (snd (win32_pop_event disp zero_event))"

definition queue_run :: "Win32Display \<Rightarrow> queue_op list \<Rightarrow> Win32Display" where
  "queue_run disp ops = foldl queue_step disp ops"

text \<open>
  The queue as the specification describes it: a FIFO list of bounded length.
  A push onto a full queue is dropped, a pop removes the oldest event.
\<close>

fun fifo_step :: "nat \<Rightarrow> Win32Event list \<Rightarrow> queue_op \<Rightarrow> Win32Event list" where
  "fifo_step cap q (Push e) = (if length q < cap then q @ [e] else q)"
| "fifo_step cap q Pop = tl q"

definition fifo_run :: "nat \<Rightarrow> Win32Event list \<Rightarrow> queue_op list \<Rightarrow> Win32Event list" where
  "fifo_run cap q ops = foldl (fifo_step cap) q ops"

section \<open>Window messages and the message translator\<close>

text \<open>
  The message identifiers the window procedure switches on; \<open>WM_OTHER n\<close> is any other
  message, and \<open>WM_QUIT\<close> is the one \<open>win32_process_events\<close> looks for. A message is
  its identifier with \<open>wParam\<close> (an unsigned machine word) and \<open>lParam\<close>.
\<close>

datatype WM =
    WM_CLOSE | WM_DESTROY | WM_KEYDOWN | WM_KEYUP
  | WM_LBUTTONDOWN | WM_RBUTTONDOWN | WM_MBUTTONDOWN
  | WM_LBUTTONUP | WM_RBUTTONUP | WM_MBUTTONUP
  | WM_MOUSEMOVE | WM_SIZE | WM_PAINT | WM_QUIT | WM_OTHER nat

type_synonym MSG = "WM \<times> int \<times> int"

text \<open>
  \<open>LOWORD\<close> and \<open>HIWORD\<close> of \<open><windows.h>\<close>: bits 0 to 15 and bits 16 to 31 of the
  argument, as unsigned 16-bit values. The cast \<open>(int)wParam\<close> keeps the low 32 bits as
  a two's complement value.
\<close>

definition LOWORD :: "int \<Rightarrow> int" where
  "LOWORD l = l mod 65536"

definition HIWORD :: "int \<Rightarrow> int" where
  "HIWORD l = (l div 65536) mod 65536"

definition int_of_wparam :: "int \<Rightarrow> int" where
  "int_of_wparam wParam = signed_take_bit 31 wParam"

text \<open>
  The process: sessions live on the heap, \<open>g_display\<close> is the global pointer the window
  procedure reads. A pointer is \<open>None\<close> (null) or an address; \<open>calloc\<close> hands out the
  addresses \<open>next_addr\<close>, \<open>next_addr + 1\<close>, ..., and \<open>free\<close> removes a session from the
  heap. \<open>quit_posted\<close> records that \<open>PostQuitMessage\<close> was called.
\<close>

type_synonym addr = nat

datatype fault = NullDereference | InvalidPointer | BufferOverrun | IntegerOverflow

record world =
  heap :: "addr \<Rightarrow> Win32Display option"
  next_addr :: addr
  g_display :: "addr option"
  quit_posted :: bool

definition and_then :: "fault + 'a \<Rightarrow> ('a \<Rightarrow> fault + 'b) \<Rightarrow> fault + 'b" where
  "and_then r f = (case r of Inl e \<Rightarrow> Inl e | Inr x \<Rightarrow> f x)"

text \<open>Reading \<open>*disp\<close>, and writing it.\<close>

definition deref :: "world \<Rightarrow> addr option \<Rightarrow> fault + Win32Display" where
  "deref w disp =
     (case disp of
        None \<Rightarrow> Inl NullDereference
      | Some a \<Rightarrow> (case heap w a of None \<Rightarrow> Inl InvalidPointer | Some d \<Rightarrow> Inr d))"

definition update_at :: "world \<Rightarrow> addr option \<Rightarrow> (Win32Display \<Rightarrow> Win32Display) \<Rightarrow> fault + world" where
  "update_at w disp f =
     (case disp of
        None \<Rightarrow> Inl NullDereference
      | Some a \<Rightarrow>
          (case heap w a of
             None \<Rightarrow> Inl InvalidPointer
           | Some d \<Rightarrow> Inr (w\<lparr>heap := (heap w)(a \<mapsto> f d)\<rparr>)))"

text \<open>\<open>Win32Display* disp = g_display; ... if (disp) { body }\<close>\<close>

definition if_display :: "world \<Rightarrow> (Win32Display \<Rightarrow> Win32Display) \<Rightarrow> fault + world" where
  "if_display w body =
     (if g_display w = None then Inr w else update_at w (g_display w) body)"

text \<open>
  The window procedure. Its result (0, or what \<open>DefWindowProc\<close> returns) is not used by
  the header and is left out; so are the paint of \<open>WM_PAINT\<close>, which reads the session
  and writes the screen only, and \<open>DefWindowProc\<close>.
\<close>

fun win32_window_proc :: "WM \<Rightarrow> int \<Rightarrow> int \<Rightarrow> world \<Rightarrow> fault + world" where
  "win32_window_proc WM_CLOSE wParam lParam w =
     if_display w (\<lambda>disp. win32_push_event (disp\<lparr>shouldClose := 1\<rparr>)
       (zero_event\<lparr>ev_type := WIN32_EVENT_CLOSE\<rparr>))"
| "win32_window_proc WM_DESTROY wParam lParam w = Inr (w\<lparr>quit_posted := True\<rparr>)"
| "win32_window_proc WM_KEYDOWN wParam lParam w =
     if_display w (\<lambda>disp. win32_push_event disp
       (zero_event\<lparr>ev_type := WIN32_EVENT_KEY_PRESS, ev_key := int_of_wparam wParam\<rparr>))"
| "win32_window_proc WM_KEYUP wParam lParam w =
     if_display w (\<lambda>disp. win32_push_event disp
       (zero_event\<lparr>ev_type := WIN32_EVENT_KEY_RELEASE, ev_key := int_of_wparam wParam\<rparr>))"
| "win32_window_proc WM_LBUTTONDOWN wParam lParam w =
     if_display w (\<lambda>disp. win32_push_event (disp\<lparr>mouseButtons := mouseButtons disp OR 1\<rparr>)
       (zero_event\<lparr>ev_type := WIN32_EVENT_MOUSE_PRESS, ev_button := 1,
          ev_mouseX := LOWORD lParam, ev_mouseY := HIWORD lParam\<rparr>))"
| "win32_window_proc WM_RBUTTONDOWN wParam lParam w =
     if_display w (\<lambda>disp. win32_push_event (disp\<lparr>mouseButtons := mouseButtons disp OR 4\<rparr>)
       (zero_event\<lparr>ev_type := WIN32_EVENT_MOUSE_PRESS, ev_button := 3,
          ev_mouseX := LOWORD lParam, ev_mouseY := HIWORD lParam\<rparr>))"
| "win32_window_proc WM_MBUTTONDOWN wParam lParam w =
     if_display w (\<lambda>disp. win32_push_event (disp\<lparr>mouseButtons := mouseButtons disp OR 2\<rparr>)
       (zero_event\<lparr>ev_type := WIN32_EVENT_MOUSE_PRESS, ev_button := 2,
          ev_mouseX := LOWORD lParam, ev_mouseY := HIWORD lParam\<rparr>))"
| "win32_window_proc WM_LBUTTONUP wParam lParam w =
     if_display w (\<lambda>disp. win32_push_event (disp\<lparr>mouseButtons := mouseButtons disp AND NOT 1\<rparr>)
       (zero_event\<lparr>ev_type := WIN32_EVENT_MOUSE_RELEASE, ev_button := 1,
          ev_mouseX := LOWORD lParam, ev_mouseY := HIWORD lParam\<rparr>))"
| "win32_window_proc WM_RBUTTONUP wParam lParam w =
     if_display w (\<lambda>disp. win32_push_event (disp\<lparr>mouseButtons := mouseButtons disp AND NOT 4\<rparr>)
       (zero_event\<lparr>ev_type := WIN32_EVENT_MOUSE_RELEASE, ev_button := 3,
          ev_mouseX := LOWORD lParam, ev_mouseY := HIWORD lParam\<rparr>))"
| "win32_window_proc WM_MBUTTONUP wParam lParam w =
     if_display w (\<lambda>disp. win32_push_event (disp\<lparr>mouseButtons := mouseButtons disp AND NOT 2\<rparr>)
       (zero_event\<lparr>ev_type := WIN32_EVENT_MOUSE_RELEASE, ev_button := 2,
          ev_mouseX := LOWORD lParam, ev_mouseY := HIWORD lParam\<rparr>))"
| "win32_window_proc WM_MOUSEMOVE wParam lParam w =
     if_display w (\<lambda>disp. win32_push_event
       (disp\<lparr>mouseX := LOWORD lParam, mouseY := HIWORD lParam\<rparr>)
       (zero_event\<lparr>ev_type := WIN32_EVENT_MOUSE_MOVE,
          ev_mouseX := LOWORD lParam, ev_mouseY := HIWORD lParam\<rparr>))"
| "win32_window_proc WM_SIZE wParam lParam w =
     if_display w (\<lambda>disp. win32_push_event disp
       (zero_event\<lparr>ev_type := WIN32_EVENT_RESIZE,
          ev_width := LOWORD lParam, ev_height := HIWORD lParam\<rparr>))"
| "win32_window_proc WM_PAINT wParam lParam w = if_display w (\<lambda>disp. disp)"
| "win32_window_proc WM_QUIT wParam lParam w = Inr w"
| "win32_window_proc (WM_OTHER n) wParam lParam w = Inr w"

text \<open>The platform delivering a list of messages to the window procedure, one by one.\<close>

fun dispatch_all :: "MSG list \<Rightarrow> world \<Rightarrow> fault + world" where
  "dispatch_all [] w = Inr w"
| "dispatch_all ((msg, wParam, lParam) # rest) w =
     and_then (win32_window_proc msg wParam lParam w) (dispatch_all rest)"

section \<open>The public operations\<close>

text \<open>
  What the platform does during \<open>win32_create_window\<close>: whether \<open>calloc\<close> succeeds, the
  two timer readings, the handles it returns (0 when the call fails), the bits of the DIB
  section (\<open>None\<close> when \<open>CreateDIBSection\<close> fails), and the messages it sends to the
  window procedure from inside \<open>CreateWindowExA\<close> and from inside \<open>ShowWindow\<close> and
  \<open>UpdateWindow\<close>.
\<close>

record create_env =
  calloc_ok :: bool
  perf_frequency :: int
  perf_counter :: int
  new_hwnd :: handle
  new_hdc :: handle
  new_memDC :: handle
  new_bitmap :: handle
  new_bits :: "byte list option"
  sent_on_create :: "MSG list"
  sent_on_show :: "MSG list"

definition win32_create_window ::
    "create_env \<Rightarrow> string \<Rightarrow> int \<Rightarrow> int \<Rightarrow> world \<Rightarrow> fault + (addr option \<times> world)" where
  "win32_create_window env title w0 h0 w =
     (if \<not> calloc_ok env then Inr (None, w)
      else
        let disp = next_addr w;
            w1 = w\<lparr>heap := (heap w)(disp \<mapsto> calloc_display\<lparr>width := w0, height := h0,
                    timerFreq := perf_frequency env, timerStart := perf_counter env\<rparr>),
                  next_addr := Suc disp\<rparr>
        in and_then (dispatch_all (sent_on_create env) w1) (\<lambda>w2.
             if new_hwnd env = 0 then Inr (None, w2\<lparr>heap := (heap w2)(disp := None)\<rparr>)
             else
               and_then (update_at (w2\<lparr>g_display := Some disp\<rparr>) (Some disp)
                   (\<lambda>d. d\<lparr>hwnd := new_hwnd env, hdc := new_hdc env, memDC := new_memDC env,
                          bitmap := new_bitmap env, pixels := new_bits env\<rparr>)) (\<lambda>w3.
               and_then (dispatch_all (sent_on_show env) w3) (\<lambda>w4.
                 Inr (Some disp, w4)))))"

text \<open>
  \<open>DestroyWindow\<close> sends \<open>WM_DESTROY\<close> to the window procedure, which posts the quit
  message.
\<close>

definition win32_destroy_window :: "addr option \<Rightarrow> world \<Rightarrow> fault + world" where
  "win32_destroy_window disp w =
     (case disp of
        None \<Rightarrow> Inr w
      | Some a \<Rightarrow>
          (case heap w a of
             None \<Rightarrow> Inl InvalidPointer
           | Some d \<Rightarrow>
               and_then (if hwnd d \<noteq> 0 then win32_window_proc WM_DESTROY 0 0 w else Inr w)
                 (\<lambda>w'. Inr (w'\<lparr>heap := (heap w')(a := None), g_display := None\<rparr>))))"

text \<open>
  \<open>win32_process_events msgs disp\<close>: \<open>msgs\<close> are the messages \<open>PeekMessage\<close> finds in the
  thread's queue, in order; when none is left, \<open>PeekMessage\<close> returns false and the loop
  ends. \<open>DispatchMessage\<close> calls the window procedure.
\<close>

fun win32_process_events :: "MSG list \<Rightarrow> addr option \<Rightarrow> world \<Rightarrow> fault + (int \<times> world)" where
  "win32_process_events [] disp w =
     and_then (deref w disp) (\<lambda>d. Inr (shouldClose d, w))"
| "win32_process_events ((msg, wParam, lParam) # rest) disp w =
     (if msg = WM_QUIT
      then and_then (update_at w disp (\<lambda>d. d\<lparr>shouldClose := 1\<rparr>)) (\<lambda>w'. Inr (1, w'))
      else and_then (win32_window_proc msg wParam lParam w) (win32_process_events rest disp))"

text \<open>The calls of the queue functions through a session pointer.\<close>

definition win32_has_events_ptr :: "addr option \<Rightarrow> world \<Rightarrow> fault + int" where
  "win32_has_events_ptr disp w = and_then (deref w disp) (\<lambda>d. Inr (win32_has_events d))"

text \<open>
  \<open>event\<close> is the target of the out-parameter, \<open>None\<close> for a null pointer; it is written
  only after the emptiness test.
\<close>

definition win32_pop_event_ptr ::
    "addr option \<Rightarrow> Win32Event option \<Rightarrow> world \<Rightarrow> fault + (int \<times> Win32Event option \<times> world)" where
  "win32_pop_event_ptr disp event w =
     and_then (deref w disp) (\<lambda>d.
       if eventHead d = eventTail d then Inr (0, event, w)
       else (case event of
               None \<Rightarrow> Inl NullDereference
             | Some ev \<Rightarrow>
                 and_then (update_at w disp (\<lambda>d. fst (snd (win32_pop_event d ev)))) (\<lambda>w'.
                   Inr (fst (win32_pop_event d ev), Some (snd (snd (win32_pop_event d ev))), w'))))"

text \<open>
  \<open>memcpy dst src n\<close> with \<open>n\<close> the \<open>int\<close> the caller computed: converted to \<open>size_t\<close>,
  a negative \<open>n\<close> is larger than any buffer. Reading or writing past the end of a buffer
  is a fault.
\<close>

definition memcpy :: "byte list option \<Rightarrow> byte list \<Rightarrow> int \<Rightarrow> fault + byte list" where
  "memcpy dst src n =
     (case dst of
        None \<Rightarrow> Inl NullDereference
      | Some buf \<Rightarrow>
          if n < 0 \<or> int (length buf) < n \<or> int (length src) < n then Inl BufferOverrun
          else Inr (take (nat n) src @ drop (nat n) buf))"

definition int_ok :: "int \<Rightarrow> bool" where
  "int_ok x \<longleftrightarrow> - 2147483648 \<le> x \<and> x \<le> 2147483647"

text \<open>
  \<open>win32_blit_pixels disp pixels\<close>; the argument \<open>pixels\<close> is \<open>src\<close> here, \<open>None\<close> for
  a null pointer. The \<open>BitBlt\<close> that follows the copy reads the surface and paints the
  window; it writes nothing of the session.
\<close>

definition win32_blit_pixels :: "addr option \<Rightarrow> byte list option \<Rightarrow> world \<Rightarrow> fault + world" where
  "win32_blit_pixels disp src w =
     (case disp of
        None \<Rightarrow> Inr w
      | Some a \<Rightarrow>
          (case src of
             None \<Rightarrow> Inr w
           | Some bytes \<Rightarrow>
               and_then (deref w disp) (\<lambda>d.
                 if \<not> int_ok (width d * height d) \<or> \<not> int_ok (width d * height d * 4)
                 then Inl IntegerOverflow
                 else
                   and_then (memcpy (pixels d) bytes (width d * height d * 4)) (\<lambda>buf.
                     update_at w disp (\<lambda>d. d\<lparr>pixels := Some buf\<rparr>)))))"

text \<open>
  \<open>win32_get_time now disp\<close>, with \<open>now\<close> the reading of \<open>QueryPerformanceCounter\<close>:
  the ticks since creation and the frequency. The function returns their quotient as
  a \<open>double\<close>.
\<close>

definition win32_get_time :: "int \<Rightarrow> Win32Display \<Rightarrow> int \<times> int" where
  "win32_get_time now disp = (now - timerStart disp, timerFreq disp)"

definition win32_get_time_ptr :: "int \<Rightarrow> addr option \<Rightarrow> world \<Rightarrow> fault + (int \<times> int)" where
  "win32_get_time_ptr now disp w = and_then (deref w disp) (\<lambda>d. Inr (win32_get_time now d))"

definition win32_sleep_ms :: "int \<Rightarrow> world \<Rightarrow> world" where
  "win32_sleep_ms ms w = w"

text \<open>
  \<open>win32_get_mouse disp x y\<close>: \<open>x\<close> and \<open>y\<close> are the targets of the two out-parameters,
  \<open>None\<close> for a null pointer; the result is their targets after the call.
\<close>

definition win32_get_mouse :: "Win32Display \<Rightarrow> int option \<Rightarrow> int option \<Rightarrow> int option \<times> int option" where
  "win32_get_mouse disp x y =
     (if x \<noteq> None then Some (mouseX disp) else None,
      if y \<noteq> None then Some (mouseY disp) else None)"

definition win32_get_mouse_ptr ::
    "addr option \<Rightarrow> int option \<Rightarrow> int option \<Rightarrow> world \<Rightarrow> fault + (int option \<times> int option)" where
  "win32_get_mouse_ptr disp x y w =
     (if x = None \<and> y = None then Inr (None, None)
      else and_then (deref w disp) (\<lambda>d. Inr (win32_get_mouse d x y)))"

definition win32_should_close :: "Win32Display \<Rightarrow> int" where
  "win32_should_close disp = shouldClose disp"

definition win32_should_close_ptr :: "addr option \<Rightarrow> world \<Rightarrow> fault + int" where
  "win32_should_close_ptr disp w = and_then (deref w disp) (\<lambda>d. Inr (win32_should_close d))"

text \<open>
  A program using the layer is a sequence of calls of its operations; the platform may
  also call the window procedure on its own (\<open>Notify\<close>). \<open>exec\<close> keeps the state after
  a call and drops what the call returns.
\<close>

datatype call =
    CreateWindow create_env string int int
  | DestroyWindow "addr option"
  | ProcessEvents "MSG list" "addr option"
  | HasEvents "addr option"
  | PopEvent "addr option" "Win32Event option"
  | BlitPixels "addr option" "byte list option"
  | GetTime int "addr option"
  | SleepMs int
  | GetMouse "addr option" "int option" "int option"
  | ShouldClose "addr option"
  | Notify WM int int

fun exec :: "call \<Rightarrow> world \<Rightarrow> fault + world" where
  "exec (CreateWindow env title w0 h0) w =
     and_then (win32_create_window env title w0 h0 w) (\<lambda>r. Inr (snd r))"
| "exec (DestroyWindow disp) w = win32_destroy_window disp w"
| "exec (ProcessEvents msgs disp) w =
     and_then (win32_process_events msgs disp w) (\<lambda>r. Inr (snd r))"
| "exec (HasEvents disp) w = and_then (win32_has_events_ptr disp w) (\<lambda>r. Inr w)"
| "exec (PopEvent disp event) w =
     and_then (win32_pop_event_ptr disp event w) (\<lambda>r. Inr (snd (snd r)))"
| "exec (BlitPixels disp src) w = win32_blit_pixels disp src w"
| "exec (GetTime now disp) w = and_then (win32_get_time_ptr now disp w) (\<lambda>r. Inr w)"
| "exec (SleepMs ms) w = Inr (win32_sleep_ms ms w)"
| "exec (GetMouse disp x y) w = and_then (win32_get_mouse_ptr disp x y w) (\<lambda>r. Inr w)"
| "exec (ShouldClose disp) w = and_then (win32_should_close_ptr disp w) (\<lambda>r. Inr w)"
| "exec (Notify msg wParam lParam) w = win32_window_proc msg wParam lParam w"

fun run :: "call list \<Rightarrow> world \<Rightarrow> fault + world" where
  "run [] w = Inr w"
| "run (c # cs) w = and_then (exec c w) (run cs)"

text \<open>
  \<open>world_ok\<close>: the heap holds only addresses \<open>calloc\<close> has handed out, and
  \<open>g_display\<close> is null or points to a live session; every state a program reaches from
  the start of the process is so (lemma \<open>reachable_world_ok\<close>).
  \<open>closing w a\<close>: the session at \<open>a\<close> is live and its \<open>shouldClose\<close> flag is set.
\<close>

definition world_ok :: "world \<Rightarrow> bool" where
  "world_ok w \<longleftrightarrow>
     (\<forall>a. heap w a \<noteq> None \<longrightarrow> a < next_addr w) \<and>
     (\<forall>a. g_display w = Some a \<longrightarrow> heap w a \<noteq> None)"

definition closing :: "world \<Rightarrow> addr \<Rightarrow> bool" where
  "closing w a \<longleftrightarrow> (\<exists>d. heap w a = Some d \<and> shouldClose d \<noteq> 0)"

text \<open>Every live session has its queue indices in range.\<close>

definition sessions_ok :: "world \<Rightarrow> bool" where
  "sessions_ok w \<longleftrightarrow> (\<forall>a d. heap w a = Some d \<longrightarrow> queue_ok d)"

text \<open>The process before any call, and a process with one fresh session at address 0.\<close>

definition world0 :: world where
  "world0 = \<lparr>heap = (\<lambda>a. None), next_addr = 0, g_display = None, quit_posted = False\<rparr>"

definition one_session :: "Win32Display \<Rightarrow> world" where
  "one_session d = \<lparr>heap = (\<lambda>a. None)(0 \<mapsto> d), next_addr = 1, g_display = Some 0,
     quit_posted = False\<rparr>"

text \<open>
  \<open>steady w w'\<close>: a step from \<open>w\<close> to \<open>w'\<close> that neither allocates nor frees a
  session, leaves \<open>g_display\<close> alone, keeps every close flag that is set and keeps
  the queue indices in range.
\<close>

definition steady :: "world \<Rightarrow> world \<Rightarrow> bool" where
  "steady w w' \<longleftrightarrow>
     world_ok w' \<and> next_addr w' = next_addr w \<and> g_display w' = g_display w \<and>
     (\<forall>b. (heap w' b = None) = (heap w b = None)) \<and>
     (\<forall>b. closing w b \<longrightarrow> closing w' b) \<and>
     (sessions_ok w \<longrightarrow> sessions_ok w')"

section \<open>The claims' vocabulary\<close>

text \<open>
  The position carried by the most recent \<open>WM_MOUSEMOVE\<close> of a list of messages, if any.
\<close>

fun last_move :: "MSG list \<Rightarrow> (int \<times> int) option" where
  "last_move [] = None"
| "last_move ((msg, wParam, lParam) # rest) =
     (case last_move rest of
        Some p \<Rightarrow> Some p
      | None \<Rightarrow> if msg = WM_MOUSEMOVE then Some (LOWORD lParam, HIWORD lParam) else None)"

text \<open>
  The press and release messages of the button with identifier \<open>b\<close> (1 left, 2 middle,
  3 right), the bit of the button in the mask of pressed buttons, and the event the
  translator builds for a button message.
\<close>

definition button_down :: "int \<Rightarrow> WM" where
  "button_down b = (if b = 1 then WM_LBUTTONDOWN else if b = 2 then WM_MBUTTONDOWN else WM_RBUTTONDOWN)"

definition button_up :: "int \<Rightarrow> WM" where
  "button_up b = (if b = 1 then WM_LBUTTONUP else if b = 2 then WM_MBUTTONUP else WM_RBUTTONUP)"

definition button_mask :: "int \<Rightarrow> int" where
  "button_mask b = 2 ^ nat (b - 1)"

definition mouse_event :: "Win32EventType \<Rightarrow> int \<Rightarrow> int \<Rightarrow> int \<Rightarrow> Win32Event" where
  "mouse_event t b x y = zero_event\<lparr>ev_type := t, ev_button := b, ev_mouseX := x, ev_mouseY := y\<rparr>"

section \<open>Example inputs\<close>

definition key_press :: "int \<Rightarrow> Win32Event" where
  "key_press k = zero_event\<lparr>ev_type := WIN32_EVENT_KEY_PRESS, ev_key := k\<rparr>"

definition key_presses :: "nat \<Rightarrow> Win32Event list" where
  "key_presses n = map (\<lambda>i. key_press (int i)) [0 ..< n]"

text \<open>
  A session of 32768 by 16384 pixels, whose surface has \<open>2^31\<close> bytes, and buffers of
  that length.
\<close>

definition big_buffer :: "byte \<Rightarrow> byte list" where
  "big_buffer b = replicate 2147483648 b"

definition big_session :: Win32Display where
  "big_session = calloc_display\<lparr>width := 32768, height := 16384,
     pixels := Some (big_buffer 0)\<rparr>"

section \<open>Facts about the queue\<close>

lemma c_rem_nonneg: "0 \<le> a \<Longrightarrow> c_rem a 64 = a mod 64"
  by (cases "a = 0") (simp_all add: c_rem_def)

lemma diff_mod64:
  assumes "0 \<le> (h::int)" "h < 64" "0 \<le> t" "t < 64"
  shows "(t - h) mod 64 = (if h \<le> t then t - h else t - h + 64)"
proof (cases "h \<le> t")
  case True
  with assms show ?thesis by (simp add: mod_pos_pos_trivial)
next
  case False
  have "(t - h) mod 64 = (t - h + 64) mod 64" by simp
  also have "\<dots> = t - h + 64"
    using assms False by (intro mod_pos_pos_trivial) linarith+
  finally show ?thesis using False by simp
qed

lemma succ_mod64:
  "0 \<le> (t::int) \<Longrightarrow> t < 64 \<Longrightarrow> (t + 1) mod 64 = (if t = 63 then 0 else t + 1)"
  by (simp add: mod_pos_pos_trivial)

lemma add_mod64:
  assumes "0 \<le> (h::int)" "h < 64" "0 \<le> i" "i < 64"
  shows "(h + i) mod 64 = (if h + i < 64 then h + i else h + i - 64)"
proof (cases "h + i < 64")
  case True
  with assms show ?thesis by (simp add: mod_pos_pos_trivial)
next
  case False
  have "(h + i) mod 64 = (h + i - 64) mod 64" by simp
  also have "\<dots> = h + i - 64"
    using assms False by (intro mod_pos_pos_trivial) linarith+
  finally show ?thesis using False by simp
qed

lemma c_rem_succ:
  "0 \<le> (t::int) \<Longrightarrow> t < 64 \<Longrightarrow> c_rem (t + 1) 64 = (if t = 63 then 0 else t + 1)"
  by (simp add: c_rem_nonneg succ_mod64)

lemma queue_ok_calloc: "queue_ok calloc_display"
  by (simp add: queue_ok_def calloc_display_def)

lemma pending_calloc: "pending calloc_display = []"
  by (simp add: pending_def calloc_display_def)

lemma length_pending: "length (pending d) = nat ((eventTail d - eventHead d) mod 64)"
  by (simp add: pending_def)

lemma length_pending_ok:
  assumes "queue_ok d"
  shows "int (length (pending d)) =
    (if eventHead d \<le> eventTail d then eventTail d - eventHead d
     else eventTail d - eventHead d + 64)"
  using assms unfolding length_pending queue_ok_def
  by (simp add: diff_mod64)

lemma length_pending_le: "length (pending d) \<le> 63"
proof -
  have "(eventTail d - eventHead d) mod 64 < 64" by simp
  then show ?thesis unfolding length_pending by linarith
qed

lemma pending_empty_iff:
  assumes "queue_ok d"
  shows "pending d = [] \<longleftrightarrow> eventHead d = eventTail d"
proof -
  have "pending d = [] \<longleftrightarrow> int (length (pending d)) = 0" by simp
  also have "\<dots> \<longleftrightarrow> eventHead d = eventTail d"
    using assms unfolding length_pending_ok [OF assms] queue_ok_def by auto
  finally show ?thesis .
qed

lemma full_iff:
  assumes "queue_ok d"
  shows "c_rem (eventTail d + 1) 64 = eventHead d \<longleftrightarrow> length (pending d) = 63"
proof -
  have "length (pending d) = 63 \<longleftrightarrow> int (length (pending d)) = 63" by linarith
  also have "\<dots> \<longleftrightarrow> c_rem (eventTail d + 1) 64 = eventHead d"
    using assms unfolding length_pending_ok [OF assms] queue_ok_def
    by (auto simp: c_rem_succ)
  finally show ?thesis by simp
qed

lemma queue_ok_push: "queue_ok d \<Longrightarrow> queue_ok (win32_push_event d e)"
  by (auto simp: queue_ok_def win32_push_event_def Let_def c_rem_succ)

lemma queue_ok_pop: "queue_ok d \<Longrightarrow> queue_ok (fst (snd (win32_pop_event d ev)))"
  by (auto simp: queue_ok_def win32_pop_event_def c_rem_succ)

lemma index_mod64:
  assumes "queue_ok d" "i \<le> length (pending d)"
  shows "(eventHead d + int i) mod 64 =
    (if eventHead d + int i < 64 then eventHead d + int i else eventHead d + int i - 64)"
proof -
  have "length (pending d) \<le> 63" by (rule length_pending_le)
  with assms(2) have "int i < 64" by linarith
  with assms(1) show ?thesis unfolding queue_ok_def by (intro add_mod64) simp_all
qed

lemma index_tail:
  assumes "queue_ok d"
  shows "(eventHead d + int (length (pending d))) mod 64 = eventTail d"
  using assms length_pending_ok [OF assms] index_mod64 [OF assms order_refl]
  unfolding queue_ok_def by (auto split: if_splits)

lemma index_not_tail:
  assumes "queue_ok d" "i < length (pending d)"
  shows "(eventHead d + int i) mod 64 \<noteq> eventTail d"
proof -
  have "i \<le> length (pending d)" using assms(2) by simp
  from index_mod64 [OF assms(1) this] length_pending_ok [OF assms(1)] assms
  show ?thesis unfolding queue_ok_def by (auto split: if_splits)
qed

lemma pending_nth:
  assumes "i < length (pending d)"
  shows "pending d ! i = events d ! nat ((eventHead d + int i) mod 64)"
  using assms by (simp add: pending_def)

lemma pending_push:
  assumes ok: "queue_ok d" and nf: "length (pending d) \<noteq> 63"
  shows "pending (win32_push_event d e) = pending d @ [e]"
proof -
  let ?d' = "win32_push_event d e"
  have nfull: "c_rem (eventTail d + 1) 64 \<noteq> eventHead d"
    using full_iff [OF ok] nf by simp
  have d': "?d' = d\<lparr>events := (events d)[nat (eventTail d) := e],
      eventTail := c_rem (eventTail d + 1) 64\<rparr>"
    using nfull by (simp add: win32_push_event_def Let_def)
  have ok': "queue_ok ?d'" by (rule queue_ok_push [OF ok])
  have hd': "eventHead ?d' = eventHead d" by (simp add: d')
  have tl': "eventTail ?d' = (if eventTail d = 63 then 0 else eventTail d + 1)"
    using ok by (simp add: d' c_rem_succ queue_ok_def)
  have ev': "events ?d' = (events d)[nat (eventTail d) := e]" by (simp add: d')
  have len: "length (pending ?d') = Suc (length (pending d))"
  proof -
    have "int (length (pending ?d')) = int (length (pending d)) + 1"
      using ok nfull unfolding length_pending_ok [OF ok] length_pending_ok [OF ok'] hd' tl'
      by (auto simp: queue_ok_def c_rem_succ split: if_splits)
    then show ?thesis by linarith
  qed
  show ?thesis
  proof (rule nth_equalityI)
    show "length (pending ?d') = length (pending d @ [e])" by (simp add: len)
  next
    fix i assume "i < length (pending ?d')"
    then have i: "i < Suc (length (pending d))" by (simp add: len)
    have lhs: "pending ?d' ! i = (events d)[nat (eventTail d) := e] ! nat ((eventHead d + int i) mod 64)"
      using i by (simp add: pending_nth len hd' ev')
    show "pending ?d' ! i = (pending d @ [e]) ! i"
    proof (cases "i < length (pending d)")
      case True
      have ne: "(eventHead d + int i) mod 64 \<noteq> eventTail d"
        by (rule index_not_tail [OF ok True])
      have "nat ((eventHead d + int i) mod 64) \<noteq> nat (eventTail d)"
      proof
        assume "nat ((eventHead d + int i) mod 64) = nat (eventTail d)"
        moreover have "0 \<le> (eventHead d + int i) mod 64" by simp
        moreover have "0 \<le> eventTail d" using ok by (simp add: queue_ok_def)
        ultimately have "(eventHead d + int i) mod 64 = eventTail d" by linarith
        with ne show False by contradiction
      qed
      then show ?thesis using True by (simp add: lhs nth_append pending_nth)
    next
      case False
      with i have eq: "i = length (pending d)" by simp
      have "(eventHead d + int i) mod 64 = eventTail d"
        unfolding eq by (rule index_tail [OF ok])
      moreover have "nat (eventTail d) < length (events d)"
        using ok unfolding queue_ok_def by linarith
      ultimately have "pending ?d' ! i = e" by (simp add: lhs)
      moreover have "(pending d @ [e]) ! i = e" by (simp add: eq)
      ultimately show ?thesis by simp
    qed
  qed
qed

lemma pending_push_full:
  assumes ok: "queue_ok d" and "length (pending d) = 63"
  shows "win32_push_event d e = d"
  using full_iff [OF ok] assms(2) by (simp add: win32_push_event_def Let_def)


lemma pop_empty:
  "eventHead d = eventTail d \<Longrightarrow> win32_pop_event d ev = (0, d, ev)"
  by (simp add: win32_pop_event_def)

lemma pop_nonempty:
  assumes ok: "queue_ok d" and ne: "pending d \<noteq> []"
  shows "\<exists>d'. win32_pop_event d ev = (1, d', hd (pending d)) \<and>
    queue_ok d' \<and> pending d' = tl (pending d) \<and>
    events d' = events d \<and> eventTail d' = eventTail d"
proof -
  let ?d' = "d\<lparr>eventHead := c_rem (eventHead d + 1) 64\<rparr>"
  have hne: "eventHead d \<noteq> eventTail d" using pending_empty_iff [OF ok] ne by simp
  have pos: "0 < length (pending d)" using ne by simp
  have h0: "(eventHead d + int 0) mod 64 = eventHead d"
    using ok by (simp add: queue_ok_def mod_pos_pos_trivial)
  have first: "hd (pending d) = events d ! nat (eventHead d)"
    using pending_nth [OF pos] h0 ne by (simp add: hd_conv_nth)
  have pop: "win32_pop_event d ev = (1, ?d', hd (pending d))"
    using hne by (simp add: win32_pop_event_def first)
  have ok': "queue_ok ?d'" using ok by (auto simp: queue_ok_def c_rem_succ)
  have hd': "eventHead ?d' = (if eventHead d = 63 then 0 else eventHead d + 1)"
    using ok by (simp add: c_rem_succ queue_ok_def)
  have len: "Suc (length (pending ?d')) = length (pending d)"
  proof -
    have "int (length (pending ?d')) + 1 = int (length (pending d))"
      using ok hne unfolding length_pending_ok [OF ok] length_pending_ok [OF ok'] hd'
      by (auto simp: queue_ok_def split: if_splits)
    then show ?thesis by linarith
  qed
  have "pending ?d' = tl (pending d)"
  proof (rule nth_equalityI)
    show "length (pending ?d') = length (tl (pending d))" using len by simp
  next
    fix i assume i: "i < length (pending ?d')"
    then have i1: "Suc i < length (pending d)" using len by simp
    then have i2: "Suc i \<le> length (pending d)" by simp
    have i3: "i \<le> length (pending ?d')" using i by simp
    have "(eventHead ?d' + int i) mod 64 = (eventHead d + int (Suc i)) mod 64"
    proof (cases "eventHead d = 63")
      case True
      have "(63 + int (Suc i)) mod 64 = (int i + 64) mod 64" by (simp add: add.commute)
      also have "\<dots> = int i mod 64" by simp
      finally show ?thesis unfolding hd' using True by simp
    next
      case False
      then show ?thesis unfolding hd' by (simp add: ac_simps)
    qed
    then show "pending ?d' ! i = tl (pending d) ! i"
      using i i1 by (simp add: pending_nth nth_tl)
  qed
  with pop ok' show ?thesis by simp
qed

lemma push_all_pending:
  "queue_ok d \<Longrightarrow>
   queue_ok (push_all d es) \<and> pending (push_all d es) = take 63 (pending d @ es)"
proof (induction es arbitrary: d)
  case Nil
  then show ?case using length_pending_le [of d] by simp
next
  case (Cons e es)
  show ?case
  proof (cases "length (pending d) = 63")
    case True
    then have same: "win32_push_event d e = d"
      by (rule pending_push_full [OF Cons.prems])
    from Cons.IH [OF Cons.prems] True show ?thesis by (simp add: same)
  next
    case False
    have ok': "queue_ok (win32_push_event d e)" by (rule queue_ok_push [OF Cons.prems])
    from Cons.IH [OF ok'] pending_push [OF Cons.prems False]
    show ?thesis by simp
  qed
qed

lemma pop_n_Suc:
  "win32_pop_event d zero_event = (r, d', e) \<Longrightarrow>
   pop_n (Suc n) d = ((if r = 1 then Some e else None) # fst (pop_n n d'), snd (pop_n n d'))"
  by (simp add: case_prod_beta)

lemma pop_n_pending:
  "queue_ok d \<Longrightarrow>
   fst (pop_n n d) = map Some (take n (pending d)) @ replicate (n - length (pending d)) None \<and>
   queue_ok (snd (pop_n n d)) \<and>
   pending (snd (pop_n n d)) = drop n (pending d) \<and>
   events (snd (pop_n n d)) = events d \<and> eventTail (snd (pop_n n d)) = eventTail d"
proof (induction n arbitrary: d)
  case 0
  then show ?case by simp
next
  case (Suc n)
  show ?case
  proof (cases "pending d = []")
    case True
    then have "eventHead d = eventTail d" using pending_empty_iff [OF Suc.prems] by simp
    then have pop: "win32_pop_event d zero_event = (0, d, zero_event)" by (rule pop_empty)
    have unf: "pop_n (Suc n) d = (None # fst (pop_n n d), snd (pop_n n d))"
      using pop_n_Suc [OF pop] by simp
    from Suc.IH [OF Suc.prems] True show ?thesis
      unfolding unf by simp
  next
    case False
    from pop_nonempty [OF Suc.prems False, of zero_event]
    obtain d' where pop: "win32_pop_event d zero_event = (1, d', hd (pending d))"
      and ok': "queue_ok d'" and p': "pending d' = tl (pending d)"
      and e': "events d' = events d" "eventTail d' = eventTail d" by blast
    have unf: "pop_n (Suc n) d = (Some (hd (pending d)) # fst (pop_n n d'), snd (pop_n n d'))"
      using pop_n_Suc [OF pop] by simp
    from False obtain x xs where xs: "pending d = x # xs" by (cases "pending d") auto
    from Suc.IH [OF ok'] show ?thesis
      unfolding unf by (simp add: p' e' xs)
  qed
qed

lemma queue_step_pending:
  assumes "queue_ok d"
  shows "queue_ok (queue_step d x) \<and> pending (queue_step d x) = fifo_step 63 (pending d) x"
proof (cases x)
  case (Push e)
  show ?thesis
  proof (cases "length (pending d) = 63")
    case True
    then show ?thesis using assms pending_push_full [OF assms True] by (simp add: Push)
  next
    case False
    moreover have "length (pending d) \<le> 63" by (rule length_pending_le)
    ultimately have "length (pending d) < 63" by linarith
    then show ?thesis
      using pending_push [OF assms False] queue_ok_push [OF assms] by (simp add: Push)
  qed
next
  case Pop
  show ?thesis
  proof (cases "pending d = []")
    case True
    then have "eventHead d = eventTail d" using pending_empty_iff [OF assms] by simp
    then show ?thesis using assms True by (simp add: Pop pop_empty)
  next
    case False
    from pop_nonempty [OF assms False, of zero_event] show ?thesis
      by (auto simp: Pop)
  qed
qed

lemma queue_run_pending:
  "queue_ok d \<Longrightarrow>
   queue_ok (queue_run d ops) \<and> pending (queue_run d ops) = fifo_run 63 (pending d) ops"
proof (induction ops arbitrary: d)
  case Nil
  then show ?case by (simp add: queue_run_def fifo_run_def)
next
  case (Cons x ops)
  from queue_step_pending [OF Cons.prems, of x] Cons.IH [of "queue_step d x"]
  show ?case by (simp add: queue_run_def fifo_run_def)
qed

lemma length_key_presses: "length (key_presses n) = n"
  by (simp add: key_presses_def)

lemma push_all_queue_run: "push_all d es = queue_run d (map Push es)"
  by (induction es arbitrary: d) (simp_all add: queue_run_def)

lemma pending_push_all_empty:
  assumes "queue_ok d" "eventHead d = eventTail d"
  shows "queue_ok (push_all d es)" "pending (push_all d es) = take 63 es"
proof -
  have "pending d = []" using pending_empty_iff [OF assms(1)] assms(2) by simp
  with push_all_pending [OF assms(1), of es]
  show "queue_ok (push_all d es)" "pending (push_all d es) = take 63 es" by simp_all
qed

lemma has_events_pending:
  assumes "queue_ok d"
  shows "win32_has_events d = (if pending d = [] then 0 else 1)"
  using pending_empty_iff [OF assms] by (simp add: win32_has_events_def)

lemma pops_after_pushes:
  assumes "queue_ok d" "eventHead d = eventTail d"
  shows "fst (pop_n n (push_all d es)) =
      map Some (take n (take 63 es)) @ replicate (n - length (take 63 es)) None"
    and "win32_has_events (snd (pop_n n (push_all d es))) =
      (if drop n (take 63 es) = [] then 0 else 1)"
proof -
  note p = pending_push_all_empty [OF assms, of es]
  note q = pop_n_pending [OF p(1), of n]
  show "fst (pop_n n (push_all d es)) =
      map Some (take n (take 63 es)) @ replicate (n - length (take 63 es)) None"
    using q by (simp add: p(2))
  have "queue_ok (snd (pop_n n (push_all d es)))" using q by simp
  from has_events_pending [OF this]
  show "win32_has_events (snd (pop_n n (push_all d es))) =
      (if drop n (take 63 es) = [] then 0 else 1)"
    using q by (simp add: p(2))
qed

lemma full_after_63_pushes:
  "queue_ok (queue_run calloc_display (map Push (key_presses 63)))"
  "length (pending (queue_run calloc_display (map Push (key_presses 63)))) = 63"
proof -
  have e: "eventHead calloc_display = eventTail calloc_display"
    by (simp add: calloc_display_def)
  note p = pending_push_all_empty [OF queue_ok_calloc e, of "key_presses 63"]
  show "queue_ok (queue_run calloc_display (map Push (key_presses 63)))"
    using p(1) by (simp add: push_all_queue_run)
  show "length (pending (queue_run calloc_display (map Push (key_presses 63)))) = 63"
    using p(2) by (simp add: push_all_queue_run length_key_presses)
qed

section \<open>Facts about the message translator and the public operations\<close>

lemma and_then_simps [simp]:
  "and_then (Inr x) f = f x"
  "and_then (Inl e) f = Inl e"
  by (simp_all add: and_then_def)

lemma and_then_Inr_iff:
  "and_then r f = Inr y \<longleftrightarrow> (\<exists>x. r = Inr x \<and> f x = Inr y)"
  by (cases r) simp_all

lemma deref_live: "heap w a = Some d \<Longrightarrow> deref w (Some a) = Inr d"
  by (simp add: deref_def)

lemma deref_null: "deref w None = Inl NullDereference"
  by (simp add: deref_def)

lemma deref_Inr_iff: "deref w p = Inr d \<longleftrightarrow> (\<exists>a. p = Some a \<and> heap w a = Some d)"
  by (auto simp: deref_def split: option.splits)

lemma update_at_live:
  "heap w a = Some d \<Longrightarrow> update_at w (Some a) f = Inr (w\<lparr>heap := (heap w)(a \<mapsto> f d)\<rparr>)"
  by (simp add: update_at_def)

lemma update_at_Inr_iff:
  "update_at w p f = Inr w' \<longleftrightarrow>
     (\<exists>a d. p = Some a \<and> heap w a = Some d \<and> w' = w\<lparr>heap := (heap w)(a \<mapsto> f d)\<rparr>)"
  by (auto simp: update_at_def split: option.splits)

lemma if_display_live:
  "g_display w = Some a \<Longrightarrow> heap w a = Some d \<Longrightarrow>
   if_display w f = Inr (w\<lparr>heap := (heap w)(a \<mapsto> f d)\<rparr>)"
  by (simp add: if_display_def update_at_live)

lemma push_fields [simp]:
  "shouldClose (win32_push_event d e) = shouldClose d"
  "mouseX (win32_push_event d e) = mouseX d"
  "mouseY (win32_push_event d e) = mouseY d"
  "mouseButtons (win32_push_event d e) = mouseButtons d"
  "pixels (win32_push_event d e) = pixels d"
  "width (win32_push_event d e) = width d"
  "height (win32_push_event d e) = height d"
  by (simp_all add: win32_push_event_def Let_def)

lemma pop_fields [simp]:
  "shouldClose (fst (snd (win32_pop_event d e))) = shouldClose d"
  by (simp add: win32_pop_event_def)

lemma queue_ok_fields [simp]:
  "queue_ok (d\<lparr>shouldClose := c\<rparr>) = queue_ok d"
  "queue_ok (d\<lparr>mouseButtons := m\<rparr>) = queue_ok d"
  "queue_ok (d\<lparr>mouseX := x\<rparr>) = queue_ok d"
  "queue_ok (d\<lparr>mouseY := y\<rparr>) = queue_ok d"
  "queue_ok (d\<lparr>pixels := p\<rparr>) = queue_ok d"
  "queue_ok (d\<lparr>width := i\<rparr>) = queue_ok d"
  "queue_ok (d\<lparr>height := i\<rparr>) = queue_ok d"
  "queue_ok (d\<lparr>timerFreq := i\<rparr>) = queue_ok d"
  "queue_ok (d\<lparr>timerStart := i\<rparr>) = queue_ok d"
  "queue_ok (d\<lparr>hwnd := h\<rparr>) = queue_ok d"
  "queue_ok (d\<lparr>hdc := h\<rparr>) = queue_ok d"
  "queue_ok (d\<lparr>memDC := h\<rparr>) = queue_ok d"
  "queue_ok (d\<lparr>bitmap := h\<rparr>) = queue_ok d"
  by (simp_all add: queue_ok_def)

lemma sessions_ok_update:
  assumes "sessions_ok w" "heap w b = Some d" "queue_ok d \<longrightarrow> queue_ok d'"
  shows "sessions_ok (w\<lparr>heap := (heap w)(b \<mapsto> d')\<rparr>)"
  unfolding sessions_ok_def
proof (intro allI impI)
  fix a e assume h: "heap (w\<lparr>heap := (heap w)(b \<mapsto> d')\<rparr>) a = Some e"
  show "queue_ok e"
  proof (cases "a = b")
    case True
    then have "e = d'" using h by simp
    moreover have "queue_ok d" using assms(1,2) unfolding sessions_ok_def by blast
    ultimately show ?thesis using assms(3) by simp
  next
    case False
    then have "heap w a = Some e" using h by simp
    then show ?thesis using assms(1) unfolding sessions_ok_def by blast
  qed
qed

lemma steady_refl: "world_ok w \<Longrightarrow> steady w w"
  by (simp add: steady_def)

lemma steady_trans: "steady w w' \<Longrightarrow> steady w' w'' \<Longrightarrow> steady w w''"
  by (simp add: steady_def)

lemma steady_update:
  assumes "world_ok w" "heap w b = Some d"
    and "shouldClose d \<noteq> 0 \<longrightarrow> shouldClose d' \<noteq> 0"
    and "queue_ok d \<longrightarrow> queue_ok d'"
  shows "steady w (w\<lparr>heap := (heap w)(b \<mapsto> d')\<rparr>)"
proof -
  have "sessions_ok w \<longrightarrow> sessions_ok (w\<lparr>heap := (heap w)(b \<mapsto> d')\<rparr>)"
    using sessions_ok_update [OF _ assms(2,4)] by blast
  moreover have "world_ok (w\<lparr>heap := (heap w)(b \<mapsto> d')\<rparr>)"
    using assms(1,2) by (auto simp: world_ok_def)
  moreover have "\<forall>a. closing w a \<longrightarrow> closing (w\<lparr>heap := (heap w)(b \<mapsto> d')\<rparr>) a"
    using assms(2,3) by (auto simp: closing_def)
  moreover have "\<forall>a. (heap (w\<lparr>heap := (heap w)(b \<mapsto> d')\<rparr>) a = None) = (heap w a = None)"
    using assms(2) by auto
  ultimately show ?thesis unfolding steady_def by simp
qed

lemma steady_quit: "world_ok w \<Longrightarrow> steady w (w\<lparr>quit_posted := q\<rparr>)"
  by (simp add: steady_def world_ok_def closing_def sessions_ok_def)

lemma if_display_steady:
  assumes "world_ok w" and "\<And>d. shouldClose d \<noteq> 0 \<Longrightarrow> shouldClose (f d) \<noteq> 0"
    and "\<And>d. queue_ok d \<Longrightarrow> queue_ok (f d)"
  shows "\<exists>w'. if_display w f = Inr w' \<and> steady w w'"
proof (cases "g_display w")
  case None
  then show ?thesis using assms(1) by (simp add: if_display_def steady_refl)
next
  case (Some a)
  then obtain d where d: "heap w a = Some d" using assms(1) by (auto simp: world_ok_def)
  have "steady w (w\<lparr>heap := (heap w)(a \<mapsto> f d)\<rparr>)"
    using assms(1) d assms(2) [of d] assms(3) [of d] by (intro steady_update) auto
  then show ?thesis using if_display_live [OF Some d] by simp
qed

lemma window_proc_steady:
  assumes "world_ok w"
  shows "\<exists>w'. win32_window_proc msg wParam lParam w = Inr w' \<and> steady w w'"
proof (cases msg)
  case WM_DESTROY
  then show ?thesis using steady_quit [OF assms] by simp
next
  case WM_QUIT
  then show ?thesis using steady_refl [OF assms] by simp
next
  case (WM_OTHER n)
  then show ?thesis using steady_refl [OF assms] by simp
qed ((simp only: win32_window_proc.simps, rule if_display_steady [OF assms],
      simp, simp add: queue_ok_push)+)

lemma dispatch_all_steady:
  "world_ok w \<Longrightarrow> \<exists>w'. dispatch_all msgs w = Inr w' \<and> steady w w'"
proof (induction msgs arbitrary: w)
  case Nil
  then show ?case by (simp add: steady_refl)
next
  case (Cons m msgs)
  obtain msg wp lp where m: "m = (msg, wp, lp)" by (cases m)
  from window_proc_steady [OF Cons.prems, of msg wp lp]
  obtain w1 where w1: "win32_window_proc msg wp lp w = Inr w1" "steady w w1" by blast
  then have "world_ok w1" by (simp add: steady_def)
  from Cons.IH [OF this] obtain w' where "dispatch_all msgs w1 = Inr w'" "steady w1 w'" by blast
  with w1 show ?case by (auto simp: m intro: steady_trans)
qed


lemma steady_ok: "steady w w' \<Longrightarrow> world_ok w'"
  by (simp add: steady_def)

lemma steady_closing: "steady w w' \<Longrightarrow> closing w a \<Longrightarrow> closing w' a"
  by (simp add: steady_def)

lemma steady_live: "steady w w' \<Longrightarrow> heap w a = Some d \<Longrightarrow> \<exists>d'. heap w' a = Some d'"
proof -
  assume s: "steady w w'" and h: "heap w a = Some d"
  from s have "(heap w' a = None) = (heap w a = None)" unfolding steady_def by blast
  with h show ?thesis by simp
qed

lemma process_events_steady:
  "world_ok w \<Longrightarrow> win32_process_events msgs disp w = Inr (r, w') \<Longrightarrow> steady w w'"
proof (induction msgs arbitrary: w)
  case Nil
  then show ?case by (auto simp: and_then_Inr_iff steady_refl)
next
  case (Cons m msgs)
  obtain msg wp lp where m: "m = (msg, wp, lp)" by (cases m)
  show ?case
  proof (cases "msg = WM_QUIT")
    case True
    with Cons.prems(2) obtain a d where
      "heap w a = Some d" "w' = w\<lparr>heap := (heap w)(a \<mapsto> d\<lparr>shouldClose := 1\<rparr>)\<rparr>"
      by (auto simp: m and_then_Inr_iff update_at_Inr_iff)
    then show ?thesis using steady_update [OF Cons.prems(1), of a d "d\<lparr>shouldClose := 1\<rparr>"]
      by simp
  next
    case False
    from window_proc_steady [OF Cons.prems(1), of msg wp lp]
    obtain w1 where w1: "win32_window_proc msg wp lp w = Inr w1" "steady w w1" by blast
    from Cons.prems(2) False w1(1) have "win32_process_events msgs disp w1 = Inr (r, w')"
      by (simp add: m)
    from Cons.IH [OF steady_ok [OF w1(2)] this] w1(2) show ?thesis by (rule steady_trans [rotated])
  qed
qed

lemma process_events_live:
  "world_ok w \<Longrightarrow> heap w a = Some d \<Longrightarrow>
   \<exists>r w'. win32_process_events msgs (Some a) w = Inr (r, w') \<and>
     (closing w a \<longrightarrow> r \<noteq> 0)"
proof (induction msgs arbitrary: w d)
  case Nil
  then show ?case by (simp add: deref_live closing_def)
next
  case (Cons m msgs)
  obtain msg wp lp where m: "m = (msg, wp, lp)" by (cases m)
  show ?case
  proof (cases "msg = WM_QUIT")
    case True
    then show ?thesis using Cons.prems(2) by (simp add: m update_at_live)
  next
    case False
    from window_proc_steady [OF Cons.prems(1), of msg wp lp]
    obtain w1 where w1: "win32_window_proc msg wp lp w = Inr w1" "steady w w1" by blast
    from steady_live [OF w1(2) Cons.prems(2)] obtain d1 where d1: "heap w1 a = Some d1" by blast
    from Cons.IH [OF steady_ok [OF w1(2)] d1]
    obtain r w' where r: "win32_process_events msgs (Some a) w1 = Inr (r, w')"
      "closing w1 a \<longrightarrow> r \<noteq> 0" by blast
    have "closing w a \<longrightarrow> r \<noteq> 0" using r(2) steady_closing [OF w1(2)] by blast
    then show ?thesis using False w1(1) r(1) by (simp add: m)
  qed
qed

lemma pop_event_ptr_steady:
  assumes "world_ok w" "win32_pop_event_ptr disp event w = Inr (r, ev', w')"
  shows "steady w w'"
proof -
  from assms(2) obtain a d where d: "disp = Some a" "heap w a = Some d"
    by (auto simp: win32_pop_event_ptr_def and_then_Inr_iff deref_Inr_iff)
  show ?thesis
  proof (cases "eventHead d = eventTail d")
    case True
    then have "w' = w" using assms(2) d by (simp add: win32_pop_event_ptr_def deref_live)
    then show ?thesis using steady_refl [OF assms(1)] by simp
  next
    case False
    then obtain ev where "w' = w\<lparr>heap := (heap w)(a \<mapsto> fst (snd (win32_pop_event d ev)))\<rparr>"
      using assms(2) d
      by (auto simp: win32_pop_event_ptr_def deref_live update_at_live split: option.splits)
    then show ?thesis
      using steady_update [OF assms(1) d(2), of "fst (snd (win32_pop_event d ev))"]
      by (simp add: queue_ok_pop)
  qed
qed

lemma blit_pixels_steady:
  assumes "world_ok w" "win32_blit_pixels disp src w = Inr w'"
  shows "steady w w'"
proof (cases "disp = None \<or> src = None")
  case True
  then have "w' = w" using assms(2) by (auto simp: win32_blit_pixels_def split: option.splits)
  then show ?thesis using steady_refl [OF assms(1)] by simp
next
  case False
  then obtain a bytes where "disp = Some a" "src = Some bytes" by auto
  with assms(2) obtain d buf where
    "heap w a = Some d" "w' = w\<lparr>heap := (heap w)(a \<mapsto> d\<lparr>pixels := Some buf\<rparr>)\<rparr>"
    by (auto simp: win32_blit_pixels_def and_then_Inr_iff deref_Inr_iff update_at_Inr_iff
        split: if_splits)
  then show ?thesis
    using steady_update [OF assms(1), of a d "d\<lparr>pixels := Some buf\<rparr>"] by simp
qed

lemma closing_frame:
  assumes "closing w a" "heap w' a = heap w a"
  shows "closing w' a"
  using assms by (simp add: closing_def)

lemma steady_sessions_ok: "steady w w' \<Longrightarrow> sessions_ok w \<Longrightarrow> sessions_ok w'"
  by (simp add: steady_def)

lemma sessions_ok_free:
  assumes "sessions_ok w" "heap w' = (heap w)(b := None)"
  shows "sessions_ok w'"
  using assms unfolding sessions_ok_def by (auto split: if_splits)

lemma sessions_ok_alloc:
  assumes "sessions_ok w" "heap w' = (heap w)(b \<mapsto> d)" "queue_ok d"
  shows "sessions_ok w'"
  using assms unfolding sessions_ok_def by (auto split: if_splits)

lemma destroy_window_keeps:
  assumes ok: "world_ok w" and run: "win32_destroy_window disp w = Inr w'"
  shows "world_ok w' \<and> (closing w a \<longrightarrow> disp \<noteq> Some a \<longrightarrow> closing w' a) \<and>
    (sessions_ok w \<longrightarrow> sessions_ok w')"
proof (cases disp)
  case None
  then have "w' = w" using run by (simp add: win32_destroy_window_def)
  then show ?thesis using ok by simp
next
  case (Some b)
  then obtain d where d: "heap w b = Some d"
    using run by (auto simp: win32_destroy_window_def split: option.splits)
  define w1 where "w1 = (if hwnd d \<noteq> 0 then w\<lparr>quit_posted := True\<rparr> else w)"
  have w': "w' = w1\<lparr>heap := (heap w1)(b := None), g_display := None\<rparr>"
    using run Some d by (cases "hwnd d = 0") (auto simp: win32_destroy_window_def w1_def)
  have h1: "heap w1 = heap w" "next_addr w1 = next_addr w" by (simp_all add: w1_def)
  have "world_ok w'" using ok unfolding world_ok_def w' by (simp add: h1)
  moreover have "closing w' a" if "closing w a" "disp \<noteq> Some a"
  proof (rule closing_frame [OF that(1)])
    show "heap w' a = heap w a" using that(2) Some by (simp add: w' h1)
  qed
  moreover have "sessions_ok w'" if "sessions_ok w"
    using that by (rule sessions_ok_free) (simp add: w' h1)
  ultimately show ?thesis by blast
qed

lemma closing_below: "world_ok w \<Longrightarrow> closing w a \<Longrightarrow> a < next_addr w"
  by (auto simp: world_ok_def closing_def)

lemma create_window_keeps:
  assumes ok: "world_ok w" and run: "win32_create_window env title w0 h0 w = Inr (p, w')"
  shows "world_ok w' \<and> (closing w a \<longrightarrow> closing w' a) \<and>
    (sessions_ok w \<longrightarrow> sessions_ok w')"
proof (cases "calloc_ok env")
  case False
  then have "w' = w" using run by (simp add: win32_create_window_def)
  then show ?thesis using ok by simp
next
  case True
  define n where "n = next_addr w"
  define d0 where "d0 = calloc_display\<lparr>width := w0, height := h0,
    timerFreq := perf_frequency env, timerStart := perf_counter env\<rparr>"
  define w1 where "w1 = w\<lparr>heap := (heap w)(n \<mapsto> d0), next_addr := Suc n\<rparr>"
  have ok1: "world_ok w1" using ok unfolding world_ok_def w1_def n_def
    by (auto simp: less_Suc_eq)
  have g: "g_display w \<noteq> Some n" using ok unfolding world_ok_def n_def by fastforce
  have c1: "closing w1 a" if "closing w a"
  proof (rule closing_frame [OF that])
    have "a < n" using closing_below [OF ok that] by (simp add: n_def)
    then show "heap w1 a = heap w a" by (simp add: w1_def)
  qed
  have s1: "sessions_ok w1" if "sessions_ok w"
    using that by (rule sessions_ok_alloc [where b = n and d = d0])
      (simp_all add: w1_def d0_def queue_ok_calloc)
  from dispatch_all_steady [OF ok1, of "sent_on_create env"]
  obtain w2 where w2: "dispatch_all (sent_on_create env) w1 = Inr w2" "steady w1 w2" by blast
  have ok2: "world_ok w2" by (rule steady_ok [OF w2(2)])
  have "heap w1 n = Some d0" by (simp add: w1_def)
  from steady_live [OF w2(2) this] obtain d2 where d2: "heap w2 n = Some d2" by blast
  have g2: "g_display w2 = g_display w" using w2(2) by (simp add: steady_def w1_def)
  have c2: "closing w2 a" if "closing w a"
    using steady_closing [OF w2(2) c1 [OF that]] .
  have s2: "sessions_ok w2" if "sessions_ok w"
    using steady_sessions_ok [OF w2(2) s1 [OF that]] .
  have an: "a \<noteq> n" if "closing w a"
    using closing_below [OF ok that] by (simp add: n_def)
  show ?thesis
  proof (cases "new_hwnd env = 0")
    case hw: True
    have w': "w' = w2\<lparr>heap := (heap w2)(n := None)\<rparr>"
      using run True hw w2(1)
      by (simp add: win32_create_window_def Let_def n_def [symmetric] d0_def [symmetric]
          w1_def [symmetric])
    have "world_ok w'" using ok2 g g2 unfolding world_ok_def w' by auto
    moreover have "closing w' a" if "closing w a"
    proof (rule closing_frame [OF c2 [OF that]])
      show "heap w' a = heap w2 a" using an [OF that] by (simp add: w')
    qed
    moreover have "sessions_ok w'" if "sessions_ok w"
      using s2 [OF that] by (rule sessions_ok_free) (simp add: w')
    ultimately show ?thesis by blast
  next
    case hw: False
    define d3 where "d3 = d2\<lparr>hwnd := new_hwnd env, hdc := new_hdc env,
      memDC := new_memDC env, bitmap := new_bitmap env, pixels := new_bits env\<rparr>"
    define w3 where "w3 = w2\<lparr>g_display := Some n, heap := (heap w2)(n \<mapsto> d3)\<rparr>"
    have ok3: "world_ok w3" using ok2 d2 unfolding world_ok_def w3_def by auto
    have c3: "closing w3 a" if "closing w a"
    proof (rule closing_frame [OF c2 [OF that]])
      show "heap w3 a = heap w2 a" using an [OF that] by (simp add: w3_def)
    qed
    have s3: "sessions_ok w3" if "sessions_ok w"
    proof (rule sessions_ok_alloc [OF s2 [OF that], where b = n and d = d3])
      show "heap w3 = (heap w2)(n \<mapsto> d3)" by (simp add: w3_def)
      have "queue_ok d2" using s2 [OF that] d2 unfolding sessions_ok_def by blast
      then show "queue_ok d3" by (simp add: d3_def)
    qed
    from dispatch_all_steady [OF ok3, of "sent_on_show env"]
    obtain w4 where w4: "dispatch_all (sent_on_show env) w3 = Inr w4" "steady w3 w4" by blast
    have "update_at (w2\<lparr>g_display := Some n\<rparr>) (Some n)
        (\<lambda>d. d\<lparr>hwnd := new_hwnd env, hdc := new_hdc env, memDC := new_memDC env,
               bitmap := new_bitmap env, pixels := new_bits env\<rparr>) = Inr w3"
      using d2 by (simp add: update_at_def w3_def d3_def)
    then have "w' = w4"
      using run True hw w2(1) w4(1)
      by (simp add: win32_create_window_def Let_def n_def [symmetric] d0_def [symmetric]
          w1_def [symmetric])
    then show ?thesis
      using steady_ok [OF w4(2)] steady_closing [OF w4(2)] steady_sessions_ok [OF w4(2)] c3 s3
      by blast
  qed
qed

text \<open>
  Every call that returns keeps the heap well formed, the queue indices of every session
  in range and, unless it destroys the session, a close flag that is set.
\<close>

lemma exec_keeps:
  assumes ok: "world_ok w" and ex: "exec c w = Inr w'"
  shows "world_ok w' \<and>
    (closing w a \<longrightarrow> c \<noteq> DestroyWindow (Some a) \<longrightarrow> closing w' a) \<and>
    (sessions_ok w \<longrightarrow> sessions_ok w')"
proof -
  have st: ?thesis if "steady w w'"
    using steady_ok [OF that] steady_closing [OF that] steady_sessions_ok [OF that] by blast
  show ?thesis
  proof (cases c)
    case (CreateWindow env title w0 h0)
    with ex obtain p where "win32_create_window env title w0 h0 w = Inr (p, w')"
      by (auto simp: and_then_Inr_iff)
    from create_window_keeps [OF ok this] show ?thesis by blast
  next
    case (DestroyWindow disp)
    with ex have "win32_destroy_window disp w = Inr w'" by simp
    from destroy_window_keeps [OF ok this] DestroyWindow show ?thesis by blast
  next
    case (ProcessEvents msgs disp)
    with ex obtain r where "win32_process_events msgs disp w = Inr (r, w')"
      by (auto simp: and_then_Inr_iff)
    from process_events_steady [OF ok this] show ?thesis by (rule st)
  next
    case (HasEvents disp)
    with ex have "w' = w" by (auto simp: and_then_Inr_iff)
    then show ?thesis using ok by simp
  next
    case (PopEvent disp event)
    with ex obtain r ev' where "win32_pop_event_ptr disp event w = Inr (r, ev', w')"
      by (auto simp: and_then_Inr_iff)
    from pop_event_ptr_steady [OF ok this] show ?thesis by (rule st)
  next
    case (BlitPixels disp src)
    with ex have "win32_blit_pixels disp src w = Inr w'" by simp
    from blit_pixels_steady [OF ok this] show ?thesis by (rule st)
  next
    case (GetTime now disp)
    with ex have "w' = w" by (auto simp: and_then_Inr_iff)
    then show ?thesis using ok by simp
  next
    case (SleepMs ms)
    with ex have "w' = w" by (simp add: win32_sleep_ms_def)
    then show ?thesis using ok by simp
  next
    case (GetMouse disp x y)
    with ex have "w' = w" by (auto simp: and_then_Inr_iff)
    then show ?thesis using ok by simp
  next
    case (ShouldClose disp)
    with ex have "w' = w" by (auto simp: and_then_Inr_iff)
    then show ?thesis using ok by simp
  next
    case (Notify msg wParam lParam)
    from window_proc_steady [OF ok, of msg wParam lParam] ex Notify
    have "steady w w'" by auto
    then show ?thesis by (rule st)
  qed
qed

lemma run_keeps:
  "world_ok w \<Longrightarrow> run cs w = Inr w' \<Longrightarrow>
   world_ok w' \<and> (closing w a \<longrightarrow> DestroyWindow (Some a) \<notin> set cs \<longrightarrow> closing w' a) \<and>
   (sessions_ok w \<longrightarrow> sessions_ok w')"
proof (induction cs arbitrary: w)
  case Nil
  then show ?case by simp
next
  case (Cons c cs)
  from Cons.prems(2) obtain w1 where w1: "exec c w = Inr w1" "run cs w1 = Inr w'"
    by (auto simp: and_then_Inr_iff)
  note e = exec_keeps [OF Cons.prems(1) w1(1), of a]
  from e have ok1: "world_ok w1" by blast
  note i = Cons.IH [OF ok1 w1(2)]
  have "closing w' a" if "closing w a" "DestroyWindow (Some a) \<notin> set (c # cs)"
  proof -
    from that(2) have "c \<noteq> DestroyWindow (Some a)" "DestroyWindow (Some a) \<notin> set cs"
      by auto
    with e i that(1) show ?thesis by blast
  qed
  moreover have "sessions_ok w'" if "sessions_ok w" using e i that by blast
  ultimately show ?case using i by blast
qed

text \<open>
  In every state a program reaches from the start of the process, the queue indices of
  every session are in \<open>0..63\<close> and the array has its 64 slots: no access to \<open>events\<close>
  is out of bounds.
\<close>

lemma reachable_world_ok:
  assumes "run cs world0 = Inr w"
  shows "world_ok w" and "sessions_ok w"
proof -
  have "world_ok world0" "sessions_ok world0"
    by (simp_all add: world_ok_def sessions_ok_def world0_def)
  with run_keeps [OF _ assms, of 0] show "world_ok w" and "sessions_ok w" by blast+
qed

lemma reachable_queue_ok:
  assumes "run cs world0 = Inr w" and "heap w a = Some d"
  shows "queue_ok d"
  using reachable_world_ok(2) [OF assms(1)] assms(2) unfolding sessions_ok_def by blast

lemma process_events_null: "\<exists>f. win32_process_events msgs None w = Inl f"
proof (induction msgs arbitrary: w)
  case Nil
  show ?case by (simp add: deref_null)
next
  case (Cons m msgs)
  obtain msg wp lp where m: "m = (msg, wp, lp)" by (cases m)
  show ?case
  proof (cases "msg = WM_QUIT")
    case True
    then show ?thesis by (simp add: m update_at_def)
  next
    case False
    show ?thesis
    proof (cases "win32_window_proc msg wp lp w")
      case (Inl f)
      then show ?thesis using False by (simp add: m)
    next
      case (Inr w1)
      then show ?thesis using False Cons.IH [of w1] by (simp add: m)
    qed
  qed
qed

lemma window_proc_mouse:
  assumes "g_display w = Some a" "heap w a = Some d"
  shows "\<exists>w' d'. win32_window_proc msg wParam lParam w = Inr w' \<and>
    g_display w' = Some a \<and> heap w' a = Some d' \<and>
    mouseX d' = (if msg = WM_MOUSEMOVE then LOWORD lParam else mouseX d) \<and>
    mouseY d' = (if msg = WM_MOUSEMOVE then HIWORD lParam else mouseY d)"
  using assms by (cases msg) (simp_all add: if_display_live [OF assms])

lemma dispatch_all_mouse:
  "g_display w = Some a \<Longrightarrow> heap w a = Some d \<Longrightarrow>
   \<exists>w' d'. dispatch_all msgs w = Inr w' \<and> heap w' a = Some d' \<and>
     (mouseX d', mouseY d') = (case last_move msgs of None \<Rightarrow> (mouseX d, mouseY d) | Some p \<Rightarrow> p)"
proof (induction msgs arbitrary: w d)
  case Nil
  then show ?case by simp
next
  case (Cons m msgs)
  obtain msg wp lp where m: "m = (msg, wp, lp)" by (cases m)
  from window_proc_mouse [OF Cons.prems, of msg wp lp]
  obtain w1 d1 where w1: "win32_window_proc msg wp lp w = Inr w1" "g_display w1 = Some a"
    "heap w1 a = Some d1"
    "mouseX d1 = (if msg = WM_MOUSEMOVE then LOWORD lp else mouseX d)"
    "mouseY d1 = (if msg = WM_MOUSEMOVE then HIWORD lp else mouseY d)" by blast
  from Cons.IH [OF w1(2,3)]
  obtain w' d' where w': "dispatch_all msgs w1 = Inr w'" "heap w' a = Some d'"
    "(mouseX d', mouseY d') = (case last_move msgs of None \<Rightarrow> (mouseX d1, mouseY d1) | Some p \<Rightarrow> p)"
    by blast
  have "(mouseX d', mouseY d') =
      (case last_move (m # msgs) of None \<Rightarrow> (mouseX d, mouseY d) | Some p \<Rightarrow> p)"
    using w'(3) w1(4,5) by (simp add: m split: option.splits)
  with w1(1) w'(1,2) show ?case by (simp add: m)
qed

lemma heap_one_session: "heap (one_session d) 0 = Some d" "g_display (one_session d) = Some 0"
  by (simp_all add: one_session_def)

lemma button_mask_values: "button_mask 1 = 1" "button_mask 2 = 2" "button_mask 3 = 4"
  by (simp_all add: button_mask_def)

lemma bit_button_mask: "0 < b \<Longrightarrow> bit (button_mask b) n \<longleftrightarrow> n = nat (b - 1)"
  by (simp add: button_mask_def bit_exp_iff)

lemma queue_mouseButtons [simp]:
  "pending (d\<lparr>mouseButtons := m\<rparr>) = pending d"
  "queue_ok (d\<lparr>mouseButtons := m\<rparr>) = queue_ok d"
  by (simp_all add: pending_def queue_ok_def)

lemma push_pending_cases:
  assumes "queue_ok d"
  shows "pending (win32_push_event d e) = (if length (pending d) = 63 then pending d else pending d @ [e])"
  using pending_push [OF assms] pending_push_full [OF assms] by simp

lemma length_big_buffer: "int (length (big_buffer b)) = 2147483648"
  unfolding big_buffer_def length_replicate by simp

lemma big_session_fields:
  "width big_session = 32768" "height big_session = 16384"
  "pixels big_session = Some (big_buffer 0)"
  by (simp_all add: big_session_def)

lemma blit_pixels_overflow:
  assumes "heap w a = Some d" and "\<not> int_ok (width d * height d * 4)"
  shows "win32_blit_pixels (Some a) (Some src) w = Inl IntegerOverflow"
  using assms(2) by (simp add: win32_blit_pixels_def deref_live [OF assms(1)])

section \<open>Claims about the event queue\<close>

text \<open>
  Claim C10. Popping from an empty queue (\<open>eventHead = eventTail\<close>) returns 0 and
  leaves the indices, the array and the caller's event structure as they were. In any
  state, a call that does not return 1 returns 0 and has written nothing, and a call
  that returns 1 has written the event at the head to the out-parameter. Called through
  pointers on a session with an empty queue, the function returns 0 and leaves the whole
  state and the target of the out-pointer, null or not, as they were.
\<close>

theorem pop_empty_inert:
  "(eventHead d = eventTail d \<longrightarrow> win32_pop_event d ev = (0, d, ev)) \<and>
   (fst (win32_pop_event d ev) \<noteq> 1 \<longrightarrow> win32_pop_event d ev = (0, d, ev)) \<and>
   (fst (win32_pop_event d ev) = 1 \<longrightarrow>
      snd (snd (win32_pop_event d ev)) = events d ! nat (eventHead d)) \<and>
   (heap w a = Some d \<longrightarrow> eventHead d = eventTail d \<longrightarrow>
      win32_pop_event_ptr (Some a) event w = Inr (0, event, w))"
  by (simp add: win32_pop_event_def win32_pop_event_ptr_def deref_live)

theorem pop_empty_inert_witness:
  "eventHead calloc_display = eventTail calloc_display \<and>
   win32_pop_event calloc_display (key_press 7) = (0, calloc_display, key_press 7) \<and>
   fst (win32_pop_event (win32_push_event calloc_display (key_press 7)) zero_event) = 1 \<and>
   snd (snd (win32_pop_event (win32_push_event calloc_display (key_press 7)) zero_event))
     = events (win32_push_event calloc_display (key_press 7))
         ! nat (eventHead (win32_push_event calloc_display (key_press 7))) \<and>
   heap (one_session calloc_display) 0 = Some calloc_display \<and>
   win32_pop_event_ptr (Some 0) (Some (key_press 7)) (one_session calloc_display)
     = Inr (0, Some (key_press 7), one_session calloc_display)"
proof -
  let ?d1 = "win32_push_event calloc_display (key_press 7)"
  have e: "eventHead calloc_display = eventTail calloc_display"
    by (simp add: calloc_display_def)
  have "pending ?d1 = pending calloc_display @ [key_press 7]"
    by (rule pending_push [OF queue_ok_calloc]) (simp add: pending_calloc)
  then have ne: "pending ?d1 \<noteq> []" by simp
  have ok1: "queue_ok ?d1" by (rule queue_ok_push [OF queue_ok_calloc])
  from pop_nonempty [OF ok1 ne, of zero_event]
  have r: "fst (win32_pop_event ?d1 zero_event) = 1" by auto
  note t0 = pop_empty_inert [of calloc_display "key_press 7" "one_session calloc_display" 0
    "Some (key_press 7)"]
  note t1 = pop_empty_inert [of ?d1 zero_event]
  have c: "win32_pop_event_ptr (Some 0) (Some (key_press 7)) (one_session calloc_display)
      = Inr (0, Some (key_press 7), one_session calloc_display)"
    using t0 [THEN conjunct2, THEN conjunct2, THEN conjunct2] heap_one_session(1) e by blast
  have a: "win32_pop_event calloc_display (key_press 7) = (0, calloc_display, key_press 7)"
    using t0 [THEN conjunct1] e by (rule mp)
  have b: "snd (snd (win32_pop_event ?d1 zero_event)) = events ?d1 ! nat (eventHead ?d1)"
    using t1 [THEN conjunct2, THEN conjunct2, THEN conjunct1] r by (rule mp)
  show ?thesis
    by (intro conjI) (rule e a r b c heap_one_session(1))+
qed

text \<open>
  Claim C2, with the bound 63 in place of 64. For every
  list of \<open>N \<le> 63\<close> events pushed onto an empty queue, \<open>N\<close> pops return the pushed
  events in the order they were pushed.
\<close>

theorem queue_fifo_63:
  assumes "queue_ok d" and "eventHead d = eventTail d" and "length es \<le> 63"
  shows "fst (pop_n (length es) (push_all d es)) = map Some es"
  using pops_after_pushes(1) [OF assms(1,2), of "length es" es] assms(3) by simp

theorem queue_fifo_63_witness:
  "queue_ok calloc_display \<and> eventHead calloc_display = eventTail calloc_display \<and>
   length (key_presses 63) \<le> 63 \<and>
   fst (pop_n (length (key_presses 63)) (push_all calloc_display (key_presses 63)))
     = map Some (key_presses 63)"
proof -
  have e: "eventHead calloc_display = eventTail calloc_display"
    by (simp add: calloc_display_def)
  have l: "length (key_presses 63) \<le> 63" by (simp add: length_key_presses)
  from queue_fifo_63 [OF queue_ok_calloc e l] queue_ok_calloc e l show ?thesis by simp
qed

text \<open>
  Claim C2 as stated, with \<open>N = 64\<close>, fails: of 64 key events pushed onto the queue of
  a fresh session, the 64th is dropped, and the 64th pop returns 0.
\<close>

theorem queue_fifo_64_counterexample:
  "fst (pop_n 64 (push_all calloc_display (key_presses 64))) \<noteq> map Some (key_presses 64)"
proof
  assume a: "fst (pop_n 64 (push_all calloc_display (key_presses 64))) = map Some (key_presses 64)"
  have e: "eventHead calloc_display = eventTail calloc_display"
    by (simp add: calloc_display_def)
  have "fst (pop_n 64 (push_all calloc_display (key_presses 64))) ! 63 = None"
    unfolding pops_after_pushes(1) [OF queue_ok_calloc e]
    by (simp add: length_key_presses nth_append)
  moreover have "map Some (key_presses 64) ! 63 = Some (key_presses 64 ! 63)"
    by (simp add: length_key_presses)
  ultimately show False using a by simp
qed

text \<open>
  Claim C1, with the capacity 63 in place of 64. The ring of 64 slots holds 63 events. After more than 63 events are
  pushed onto an empty queue, 63 pops return exactly the first 63 pushed events in order,
  every later pop returns 0 (the 64th and all later events are lost), and
  \<open>win32_has_events\<close> is 0 after exactly 63 pops and 1 after any fewer.
\<close>

theorem queue_overflow_63:
  assumes "queue_ok d" and "eventHead d = eventTail d" and "63 < length es"
  shows "fst (pop_n 63 (push_all d es)) = map Some (take 63 es) \<and>
    (\<forall>m. fst (pop_n (63 + m) (push_all d es)) = map Some (take 63 es) @ replicate m None) \<and>
    win32_has_events (snd (pop_n 63 (push_all d es))) = 0 \<and>
    (\<forall>k<63. win32_has_events (snd (pop_n k (push_all d es))) = 1)"
proof -
  have len: "length (take 63 es) = 63" using assms(3) by simp
  have a: "fst (pop_n 63 (push_all d es)) = map Some (take 63 es)"
    unfolding pops_after_pushes(1) [OF assms(1,2)] using assms(3) by (simp add: len)
  have b: "fst (pop_n (63 + m) (push_all d es)) = map Some (take 63 es) @ replicate m None" for m
    unfolding pops_after_pushes(1) [OF assms(1,2)] using assms(3) by (simp add: len min_def)
  have c: "win32_has_events (snd (pop_n 63 (push_all d es))) = 0"
    unfolding pops_after_pushes(2) [OF assms(1,2)] using assms(3) by simp
  have d: "win32_has_events (snd (pop_n k (push_all d es))) = 1" if "k < 63" for k
    unfolding pops_after_pushes(2) [OF assms(1,2)] using that assms(3) by simp
  show ?thesis
  proof (intro conjI allI impI)
    show "fst (pop_n 63 (push_all d es)) = map Some (take 63 es)" by (rule a)
    show "fst (pop_n (63 + m) (push_all d es)) = map Some (take 63 es) @ replicate m None" for m
      by (rule b)
    show "win32_has_events (snd (pop_n 63 (push_all d es))) = 0" by (rule c)
    show "win32_has_events (snd (pop_n k (push_all d es))) = 1" if "k < 63" for k
      using that by (rule d)
  qed
qed

theorem queue_overflow_63_witness:
  "queue_ok calloc_display \<and> eventHead calloc_display = eventTail calloc_display \<and>
   63 < length (key_presses 65) \<and>
   fst (pop_n 63 (push_all calloc_display (key_presses 65))) = map Some (take 63 (key_presses 65)) \<and>
   fst (pop_n (63 + 1) (push_all calloc_display (key_presses 65)))
     = map Some (take 63 (key_presses 65)) @ replicate 1 None \<and>
   win32_has_events (snd (pop_n 63 (push_all calloc_display (key_presses 65)))) = 0 \<and>
   win32_has_events (snd (pop_n 62 (push_all calloc_display (key_presses 65)))) = 1"
proof -
  have e: "eventHead calloc_display = eventTail calloc_display"
    by (simp add: calloc_display_def)
  have l: "63 < length (key_presses 65)" by (simp add: length_key_presses)
  note t = queue_overflow_63 [OF queue_ok_calloc e l]
  have t1: "fst (pop_n 63 (push_all calloc_display (key_presses 65)))
      = map Some (take 63 (key_presses 65))"
    using t by (rule conjunct1)
  have t2: "fst (pop_n (63 + 1) (push_all calloc_display (key_presses 65)))
      = map Some (take 63 (key_presses 65)) @ replicate 1 None"
    using t [THEN conjunct2, THEN conjunct1] by (rule spec)
  have t3: "win32_has_events (snd (pop_n 63 (push_all calloc_display (key_presses 65)))) = 0"
    using t [THEN conjunct2, THEN conjunct2] by (rule conjunct1)
  have "62 < (63::nat) \<longrightarrow>
      win32_has_events (snd (pop_n 62 (push_all calloc_display (key_presses 65)))) = 1"
    using t [THEN conjunct2, THEN conjunct2, THEN conjunct2] by (rule spec)
  then have t4: "win32_has_events (snd (pop_n 62 (push_all calloc_display (key_presses 65)))) = 1"
    by simp
  show ?thesis
    by (intro conjI) (rule queue_ok_calloc e l t1 t2 t3 t4)+
qed

text \<open>
  Claim C1 as stated, with capacity 64, fails on a fresh session: after 65 key events,
  64 pops do not return the first 64 events (the 64th pop returns 0), and
  \<open>win32_has_events\<close> is already 0 after 63 pops.
\<close>

theorem queue_overflow_64_counterexample:
  "fst (pop_n 64 (push_all calloc_display (key_presses 65)))
     \<noteq> map Some (take 64 (key_presses 65)) \<and>
   win32_has_events (snd (pop_n 63 (push_all calloc_display (key_presses 65)))) = 0"
proof
  have e: "eventHead calloc_display = eventTail calloc_display"
    by (simp add: calloc_display_def)
  show "win32_has_events (snd (pop_n 63 (push_all calloc_display (key_presses 65)))) = 0"
    unfolding pops_after_pushes(2) [OF queue_ok_calloc e] by simp
  show "fst (pop_n 64 (push_all calloc_display (key_presses 65)))
     \<noteq> map Some (take 64 (key_presses 65))"
  proof
    assume a: "fst (pop_n 64 (push_all calloc_display (key_presses 65)))
      = map Some (take 64 (key_presses 65))"
    have "fst (pop_n 64 (push_all calloc_display (key_presses 65))) ! 63 = None"
      unfolding pops_after_pushes(1) [OF queue_ok_calloc e]
      by (simp add: length_key_presses nth_append)
    moreover have "map Some (take 64 (key_presses 65)) ! 63 = Some (key_presses 65 ! 63)"
      by (simp add: length_key_presses)
    ultimately show False using a by simp
  qed
qed

text \<open>
  Claim C7. Let \<open>d\<close> be any state reached from an empty queue by pushes and pops.
  The events between head and tail of \<open>d\<close> are the contents of the specification's FIFO
  queue after the same operations; that queue is empty iff \<open>eventHead = eventTail\<close>;
  \<open>win32_has_events\<close> is true iff \<open>eventHead \<noteq> eventTail\<close>; and a push in a state
  where advancing the tail would make it equal the head leaves the state unchanged.
\<close>

theorem queue_emptiness:
  assumes "queue_ok d0" and "eventHead d0 = eventTail d0"
  shows "pending (queue_run d0 ops) = fifo_run 63 [] ops \<and>
    (fifo_run 63 [] ops = [] \<longleftrightarrow>
       eventHead (queue_run d0 ops) = eventTail (queue_run d0 ops)) \<and>
    (win32_has_events (queue_run d0 ops) \<noteq> 0 \<longleftrightarrow>
       eventHead (queue_run d0 ops) \<noteq> eventTail (queue_run d0 ops)) \<and>
    (c_rem (eventTail (queue_run d0 ops) + 1) 64 = eventHead (queue_run d0 ops) \<longrightarrow>
       win32_push_event (queue_run d0 ops) e = queue_run d0 ops)"
proof -
  have p0: "pending d0 = []" using pending_empty_iff [OF assms(1)] assms(2) by simp
  note r = queue_run_pending [OF assms(1), of ops]
  have p: "pending (queue_run d0 ops) = fifo_run 63 [] ops" using r p0 by simp
  have ok: "queue_ok (queue_run d0 ops)" using r by simp
  have a: "fifo_run 63 [] ops = [] \<longleftrightarrow>
      eventHead (queue_run d0 ops) = eventTail (queue_run d0 ops)"
    using pending_empty_iff [OF ok] p by simp
  have b: "win32_has_events (queue_run d0 ops) \<noteq> 0 \<longleftrightarrow>
      eventHead (queue_run d0 ops) \<noteq> eventTail (queue_run d0 ops)"
    by (simp add: win32_has_events_def)
  have c: "win32_push_event (queue_run d0 ops) e = queue_run d0 ops"
    if "c_rem (eventTail (queue_run d0 ops) + 1) 64 = eventHead (queue_run d0 ops)"
    using that by (simp add: win32_push_event_def Let_def)
  show ?thesis
  proof (intro conjI impI)
    show "pending (queue_run d0 ops) = fifo_run 63 [] ops" by (rule p)
    show "fifo_run 63 [] ops = [] \<longleftrightarrow>
      eventHead (queue_run d0 ops) = eventTail (queue_run d0 ops)" by (rule a)
    show "win32_has_events (queue_run d0 ops) \<noteq> 0 \<longleftrightarrow>
      eventHead (queue_run d0 ops) \<noteq> eventTail (queue_run d0 ops)" by (rule b)
    show "win32_push_event (queue_run d0 ops) e = queue_run d0 ops"
      if "c_rem (eventTail (queue_run d0 ops) + 1) 64 = eventHead (queue_run d0 ops)"
      using that by (rule c)
  qed
qed

theorem queue_emptiness_witness:
  "queue_ok calloc_display \<and> eventHead calloc_display = eventTail calloc_display \<and>
   c_rem (eventTail (queue_run calloc_display (map Push (key_presses 63))) + 1) 64
     = eventHead (queue_run calloc_display (map Push (key_presses 63))) \<and>
   pending (queue_run calloc_display (map Push (key_presses 63)))
     = fifo_run 63 [] (map Push (key_presses 63)) \<and>
   (fifo_run 63 [] (map Push (key_presses 63)) = []) =
     (eventHead (queue_run calloc_display (map Push (key_presses 63)))
        = eventTail (queue_run calloc_display (map Push (key_presses 63)))) \<and>
   (win32_has_events (queue_run calloc_display (map Push (key_presses 63))) \<noteq> 0) =
     (eventHead (queue_run calloc_display (map Push (key_presses 63)))
        \<noteq> eventTail (queue_run calloc_display (map Push (key_presses 63)))) \<and>
   win32_push_event (queue_run calloc_display (map Push (key_presses 63))) (key_press 99)
     = queue_run calloc_display (map Push (key_presses 63))"
proof -
  let ?d = "queue_run calloc_display (map Push (key_presses 63))"
  have e: "eventHead calloc_display = eventTail calloc_display"
    by (simp add: calloc_display_def)
  have f: "c_rem (eventTail ?d + 1) 64 = eventHead ?d"
    using full_iff [OF full_after_63_pushes(1)] full_after_63_pushes(2) by simp
  note t = queue_emptiness [OF queue_ok_calloc e, of "map Push (key_presses 63)" "key_press 99"]
  have t4: "win32_push_event ?d (key_press 99) = ?d"
    using t [THEN conjunct2, THEN conjunct2, THEN conjunct2] f by (rule mp)
  show ?thesis
    by (intro conjI) (rule queue_ok_calloc e f t4 t [THEN conjunct1]
      t [THEN conjunct2, THEN conjunct1] t [THEN conjunct2, THEN conjunct2, THEN conjunct1])+
qed

text \<open>
  Claim C9. In every state reached from an empty queue by pushes and pops, the
  number of pending events \<open>(eventTail - eventHead) mod 64\<close> is the length of the
  specification's queue and at most 63, and a push while it is 63 is dropped.
\<close>

theorem effective_capacity_63:
  assumes "queue_ok d0" and "eventHead d0 = eventTail d0"
  shows "(eventTail (queue_run d0 ops) - eventHead (queue_run d0 ops)) mod 64 \<le> 63 \<and>
    (eventTail (queue_run d0 ops) - eventHead (queue_run d0 ops)) mod 64
       = int (length (fifo_run 63 [] ops)) \<and>
    ((eventTail (queue_run d0 ops) - eventHead (queue_run d0 ops)) mod 64 = 63 \<longrightarrow>
       win32_push_event (queue_run d0 ops) e = queue_run d0 ops)"
proof -
  let ?d = "queue_run d0 ops"
  have p0: "pending d0 = []" using pending_empty_iff [OF assms(1)] assms(2) by simp
  note r = queue_run_pending [OF assms(1), of ops]
  have p: "pending ?d = fifo_run 63 [] ops" using r p0 by simp
  have ok: "queue_ok ?d" using r by simp
  have n: "0 \<le> (eventTail ?d - eventHead ?d) mod 64" by simp
  have a: "(eventTail ?d - eventHead ?d) mod 64 \<le> 63"
  proof -
    have "(eventTail ?d - eventHead ?d) mod 64 < 64" by simp
    then show ?thesis by linarith
  qed
  have b: "(eventTail ?d - eventHead ?d) mod 64 = int (length (fifo_run 63 [] ops))"
    using n unfolding p [symmetric] length_pending by simp
  have c: "win32_push_event ?d e = ?d" if "(eventTail ?d - eventHead ?d) mod 64 = 63"
  proof -
    have "length (pending ?d) = 63" unfolding length_pending using that by simp
    then show ?thesis by (rule pending_push_full [OF ok])
  qed
  show ?thesis
  proof (intro conjI impI)
    show "(eventTail ?d - eventHead ?d) mod 64 \<le> 63" by (rule a)
    show "(eventTail ?d - eventHead ?d) mod 64 = int (length (fifo_run 63 [] ops))" by (rule b)
    show "win32_push_event ?d e = ?d" if "(eventTail ?d - eventHead ?d) mod 64 = 63"
      using that by (rule c)
  qed
qed

theorem effective_capacity_63_witness:
  "queue_ok calloc_display \<and> eventHead calloc_display = eventTail calloc_display \<and>
   (eventTail (queue_run calloc_display (map Push (key_presses 63)))
      - eventHead (queue_run calloc_display (map Push (key_presses 63)))) mod 64 = 63 \<and>
   (eventTail (queue_run calloc_display (map Push (key_presses 63)))
      - eventHead (queue_run calloc_display (map Push (key_presses 63)))) mod 64
     = int (length (fifo_run 63 [] (map Push (key_presses 63)))) \<and>
   win32_push_event (queue_run calloc_display (map Push (key_presses 63))) (key_press 99)
     = queue_run calloc_display (map Push (key_presses 63))"
proof -
  let ?d = "queue_run calloc_display (map Push (key_presses 63))"
  have e: "eventHead calloc_display = eventTail calloc_display"
    by (simp add: calloc_display_def)
  have "nat ((eventTail ?d - eventHead ?d) mod 64) = 63"
    using full_after_63_pushes(2) unfolding length_pending .
  then have f: "(eventTail ?d - eventHead ?d) mod 64 = 63" by linarith
  note t = effective_capacity_63 [OF queue_ok_calloc e, of "map Push (key_presses 63)" "key_press 99"]
  have t3: "win32_push_event ?d (key_press 99) = ?d"
    using t [THEN conjunct2, THEN conjunct2] f by (rule mp)
  show ?thesis
    by (intro conjI) (rule queue_ok_calloc e f t3 t [THEN conjunct2, THEN conjunct1])+
qed

section \<open>Claims about the session\<close>

text \<open>
  Claim C5. Let the \<open>shouldClose\<close> flag of the session at \<open>a\<close> be set. After any
  sequence of calls of the layer that returns and does not destroy the session, the flag
  is still set, and \<open>win32_process_events\<close> on the session, whatever messages are waiting,
  returns a nonzero value and leaves the flag set.
\<close>

theorem close_idempotence:
  assumes "world_ok w" and "closing w a" and "run cs w = Inr w'"
    and "DestroyWindow (Some a) \<notin> set cs"
  shows "closing w' a \<and>
    (\<exists>r w''. win32_process_events msgs (Some a) w' = Inr (r, w'') \<and> r \<noteq> 0 \<and> closing w'' a)"
proof -
  from run_keeps [OF assms(1,3), of a] assms(2,4)
  have ok': "world_ok w'" and c': "closing w' a" by blast+
  from c' obtain d where d: "heap w' a = Some d" by (auto simp: closing_def)
  from process_events_live [OF ok' d, of msgs] c'
  obtain r w'' where r: "win32_process_events msgs (Some a) w' = Inr (r, w'')" "r \<noteq> 0"
    by blast
  from process_events_steady [OF ok' r(1)] have "closing w'' a"
    using c' by (rule steady_closing)
  with c' r show ?thesis by blast
qed

theorem close_idempotence_witness:
  "world_ok (one_session (calloc_display\<lparr>shouldClose := 1\<rparr>)) \<and>
   closing (one_session (calloc_display\<lparr>shouldClose := 1\<rparr>)) 0 \<and>
   run [ShouldClose (Some 0), HasEvents (Some 0)] (one_session (calloc_display\<lparr>shouldClose := 1\<rparr>))
     = Inr (one_session (calloc_display\<lparr>shouldClose := 1\<rparr>)) \<and>
   DestroyWindow (Some 0) \<notin> set [ShouldClose (Some 0), HasEvents (Some 0)] \<and>
   (\<exists>r w''. win32_process_events [(WM_KEYDOWN, 65, 0)] (Some 0)
       (one_session (calloc_display\<lparr>shouldClose := 1\<rparr>)) = Inr (r, w'') \<and>
     r \<noteq> 0 \<and> closing w'' 0)"
proof -
  let ?w = "one_session (calloc_display\<lparr>shouldClose := 1\<rparr>)"
  have h: "heap ?w 0 = Some (calloc_display\<lparr>shouldClose := 1\<rparr>)"
    by (simp add: one_session_def)
  have ok: "world_ok ?w" by (simp add: world_ok_def one_session_def)
  have c: "closing ?w 0" unfolding closing_def h by simp
  have r: "run [ShouldClose (Some 0), HasEvents (Some 0)] ?w = Inr ?w"
    by (simp add: win32_should_close_ptr_def win32_has_events_ptr_def deref_live [OF h])
  have n: "DestroyWindow (Some 0) \<notin> set [ShouldClose (Some 0), HasEvents (Some 0)]"
    by simp
  have t: "\<exists>r w''. win32_process_events [(WM_KEYDOWN, 65, 0)] (Some 0) ?w = Inr (r, w'') \<and>
      r \<noteq> 0 \<and> closing w'' 0"
    using close_idempotence [OF ok c r n, of "[(WM_KEYDOWN, 65, 0)]"] by (rule conjunct2)
  show ?thesis
    by (intro conjI) (rule ok c r n t)+
qed

text \<open>
  Claim C6, for surfaces whose byte count fits an \<open>int\<close>. For a session whose
  \<open>pixels\<close> pointer is valid, that is, points to the \<open>width * height * 4\<close> bytes of
  its DIB section, with \<open>width * height * 4 \<le> 2147483647\<close>, and for every input buffer
  of that length, \<open>win32_blit_pixels\<close> returns with the surface equal to the input
  buffer, and nothing else of the session changed.
\<close>

theorem blit_round_trip:
  assumes "heap w a = Some d" and "pixels d = Some buf"
    and "int (length buf) = width d * height d * 4"
    and "width d * height d * 4 \<le> 2147483647"
    and "int (length src) = width d * height d * 4"
  shows "win32_blit_pixels (Some a) (Some src) w
    = Inr (w\<lparr>heap := (heap w)(a \<mapsto> d\<lparr>pixels := Some src\<rparr>)\<rparr>)"
proof -
  define n where "n = width d * height d * 4"
  define m where "m = width d * height d"
  have nm: "n = m * 4" by (simp add: n_def m_def)
  have len: "int (length buf) = n" "int (length src) = n" "n \<le> 2147483647"
    using assms(3,4,5) by (simp_all add: n_def)
  have n0: "0 \<le> n" using len(2) by linarith
  have ok: "int_ok m" "int_ok n"
    using n0 len(3) nm unfolding int_ok_def by linarith+
  have nat: "nat n = length src" "nat n = length buf" using len by linarith+
  have "memcpy (Some buf) src n = Inr (take (nat n) src @ drop (nat n) buf)"
    using n0 len by (simp add: memcpy_def)
  moreover have "take (nat n) src @ drop (nat n) buf = src"
    unfolding nat(1) by (simp add: nat(2) [symmetric] nat(1))
  ultimately have cp: "memcpy (pixels d) src n = Inr src" by (simp add: assms(2))
  have "win32_blit_pixels (Some a) (Some src) w =
      and_then (deref w (Some a)) (\<lambda>d.
        if \<not> int_ok (width d * height d) \<or> \<not> int_ok (width d * height d * 4)
        then Inl IntegerOverflow
        else and_then (memcpy (pixels d) src (width d * height d * 4)) (\<lambda>buf.
               update_at w (Some a) (\<lambda>d. d\<lparr>pixels := Some buf\<rparr>)))"
    unfolding win32_blit_pixels_def option.case ..
  also have "\<dots> = (if \<not> int_ok m \<or> \<not> int_ok n then Inl IntegerOverflow
      else and_then (memcpy (pixels d) src n) (\<lambda>buf.
             update_at w (Some a) (\<lambda>d. d\<lparr>pixels := Some buf\<rparr>)))"
    unfolding deref_live [OF assms(1)] and_then_simps n_def m_def ..
  also have "\<dots> = update_at w (Some a) (\<lambda>d. d\<lparr>pixels := Some src\<rparr>)"
    using ok by (simp add: cp)
  also have "\<dots> = Inr (w\<lparr>heap := (heap w)(a \<mapsto> d\<lparr>pixels := Some src\<rparr>)\<rparr>)"
    by (rule update_at_live [OF assms(1)])
  finally show ?thesis .
qed

theorem blit_round_trip_witness:
  "heap (one_session (calloc_display\<lparr>width := 2, height := 1, pixels := Some [0, 0, 0, 0, 0, 0, 0, 0]\<rparr>)) 0
     = Some (calloc_display\<lparr>width := 2, height := 1, pixels := Some [0, 0, 0, 0, 0, 0, 0, 0]\<rparr>) \<and>
   win32_blit_pixels (Some 0) (Some [1, 2, 3, 4, 5, 6, 7, 8])
       (one_session (calloc_display\<lparr>width := 2, height := 1, pixels := Some [0, 0, 0, 0, 0, 0, 0, 0]\<rparr>))
     = Inr (one_session (calloc_display\<lparr>width := 2, height := 1, pixels := Some [0, 0, 0, 0, 0, 0, 0, 0]\<rparr>)
         \<lparr>heap := (heap (one_session (calloc_display\<lparr>width := 2, height := 1,
                    pixels := Some [0, 0, 0, 0, 0, 0, 0, 0]\<rparr>)))
            (0 \<mapsto> calloc_display\<lparr>width := 2, height := 1, pixels := Some [0, 0, 0, 0, 0, 0, 0, 0]\<rparr>
               \<lparr>pixels := Some [1, 2, 3, 4, 5, 6, 7, 8]\<rparr>)\<rparr>)"
proof -
  let ?d = "calloc_display\<lparr>width := 2, height := 1, pixels := Some [0, 0, 0, 0, 0, 0, 0, 0]\<rparr>"
  have h: "heap (one_session ?d) 0 = Some ?d" by (simp add: one_session_def)
  have p: "pixels ?d = Some [0, 0, 0, 0, 0, 0, 0, 0]" by simp
  have l1: "int (length [0, 0, 0, 0, 0, 0, 0, 0::byte]) = width ?d * height ?d * 4" by simp
  have l2: "width ?d * height ?d * 4 \<le> 2147483647" by simp
  have l3: "int (length [1, 2, 3, 4, 5, 6, 7, 8::byte]) = width ?d * height ?d * 4" by simp
  show ?thesis
    by (intro conjI) (rule h blit_round_trip [OF h p l1 l2 l3])+
qed

text \<open>
  Claim C6 as stated, for every session with a valid pixel pointer, fails: the byte
  count is computed in \<open>int\<close>. For a surface of 32768 by 16384 pixels and an input
  buffer of its \<open>2^31\<close> bytes the product overflows, and the call does not return with
  the surface equal to the buffer.
\<close>

theorem blit_overflow_counterexample:
  "heap (one_session big_session) 0 = Some big_session \<and>
   pixels big_session = Some (big_buffer 0) \<and>
   int (length (big_buffer 0)) = width big_session * height big_session * 4 \<and>
   int (length (big_buffer 1)) = width big_session * height big_session * 4 \<and>
   win32_blit_pixels (Some 0) (Some (big_buffer 1)) (one_session big_session)
     = Inl IntegerOverflow \<and>
   win32_blit_pixels (Some 0) (Some (big_buffer 1)) (one_session big_session)
     \<noteq> Inr (one_session big_session
         \<lparr>heap := (heap (one_session big_session))
            (0 \<mapsto> big_session\<lparr>pixels := Some (big_buffer 1)\<rparr>)\<rparr>)"
proof -
  have h: "heap (one_session big_session) 0 = Some big_session"
    by (rule heap_one_session(1))
  have n: "width big_session * height big_session * 4 = 2147483648"
    by (simp add: big_session_fields)
  have l0: "int (length (big_buffer 0)) = width big_session * height big_session * 4"
    unfolding n by (rule length_big_buffer)
  have l1: "int (length (big_buffer 1)) = width big_session * height big_session * 4"
    unfolding n by (rule length_big_buffer)
  have "\<not> int_ok (width big_session * height big_session * 4)"
    unfolding n by (simp add: int_ok_def)
  then have f: "win32_blit_pixels (Some 0) (Some (big_buffer 1)) (one_session big_session)
      = Inl IntegerOverflow"
    by (rule blit_pixels_overflow [OF h])
  have g: "win32_blit_pixels (Some 0) (Some (big_buffer 1)) (one_session big_session)
     \<noteq> Inr (one_session big_session
         \<lparr>heap := (heap (one_session big_session))
            (0 \<mapsto> big_session\<lparr>pixels := Some (big_buffer 1)\<rparr>)\<rparr>)"
    unfolding f by simp
  show ?thesis
    by (intro conjI) (rule h big_session_fields(3) l0 l1 f g)+
qed

text \<open>
  Claim C4, for the operations that test their arguments. \<open>win32_blit_pixels\<close> with a
  null session or a null pixel buffer and \<open>win32_destroy_window\<close> with a null session
  return at once and change nothing, and so does \<open>win32_get_mouse\<close> with a null session
  when both out-pointers are null. The other operations read the session without a test:
  with a null session \<open>win32_has_events\<close>, \<open>win32_pop_event\<close>, \<open>win32_should_close\<close>,
  \<open>win32_get_time\<close>, \<open>win32_get_mouse\<close> with an out-pointer and
  \<open>win32_process_events\<close> dereference a null pointer.
\<close>

theorem null_arguments:
  "win32_blit_pixels None src w = Inr w \<and>
   win32_blit_pixels disp None w = Inr w \<and>
   win32_destroy_window None w = Inr w \<and>
   win32_get_mouse_ptr None None None w = Inr (None, None) \<and>
   win32_get_mouse_ptr None (Some x) py w = Inl NullDereference \<and>
   win32_get_mouse_ptr None px (Some y) w = Inl NullDereference \<and>
   win32_has_events_ptr None w = Inl NullDereference \<and>
   win32_pop_event_ptr None event w = Inl NullDereference \<and>
   win32_should_close_ptr None w = Inl NullDereference \<and>
   win32_get_time_ptr now None w = Inl NullDereference \<and>
   win32_process_events [] None w = Inl NullDereference \<and>
   (\<exists>f. win32_process_events msgs None w = Inl f)"
proof (intro conjI)
  show "win32_blit_pixels None src w = Inr w" by (simp add: win32_blit_pixels_def)
  show "win32_blit_pixels disp None w = Inr w"
    by (cases disp) (simp_all add: win32_blit_pixels_def)
  show "win32_destroy_window None w = Inr w" by (simp add: win32_destroy_window_def)
  show "win32_get_mouse_ptr None None None w = Inr (None, None)"
    by (simp add: win32_get_mouse_ptr_def)
  show "win32_get_mouse_ptr None (Some x) py w = Inl NullDereference"
    by (simp add: win32_get_mouse_ptr_def deref_null)
  show "win32_get_mouse_ptr None px (Some y) w = Inl NullDereference"
    by (simp add: win32_get_mouse_ptr_def deref_null)
  show "win32_has_events_ptr None w = Inl NullDereference"
    by (simp add: win32_has_events_ptr_def deref_null)
  show "win32_pop_event_ptr None event w = Inl NullDereference"
    by (simp add: win32_pop_event_ptr_def deref_null)
  show "win32_should_close_ptr None w = Inl NullDereference"
    by (simp add: win32_should_close_ptr_def deref_null)
  show "win32_get_time_ptr now None w = Inl NullDereference"
    by (simp add: win32_get_time_ptr_def deref_null)
  show "win32_process_events [] None w = Inl NullDereference" by (simp add: deref_null)
  show "\<exists>f. win32_process_events msgs None w = Inl f" by (rule process_events_null)
qed

theorem null_arguments_witness:
  "win32_blit_pixels None (Some [1, 2, 3, 4]) (one_session calloc_display)
     = Inr (one_session calloc_display) \<and>
   win32_blit_pixels (Some 0) None (one_session calloc_display)
     = Inr (one_session calloc_display) \<and>
   win32_destroy_window None (one_session calloc_display) = Inr (one_session calloc_display) \<and>
   win32_should_close_ptr None (one_session calloc_display) = Inl NullDereference"
proof -
  note t = null_arguments [of "Some [1, 2, 3, 4]" "one_session calloc_display" "Some 0"
    0 None None 0 None 0 "[]"]
  show ?thesis
    by (intro conjI) (rule t [THEN conjunct1] t [THEN conjunct2, THEN conjunct1]
      t [THEN conjunct2, THEN conjunct2, THEN conjunct1]
      t [THEN conjunct2, THEN conjunct2, THEN conjunct2, THEN conjunct2, THEN conjunct2,
         THEN conjunct2, THEN conjunct2, THEN conjunct2, THEN conjunct1])+
qed

text \<open>
  Claim C4 as stated fails: \<open>win32_has_events\<close> and \<open>win32_process_events\<close> on a null
  session are not no-ops, they dereference the null pointer.
\<close>

theorem null_session_counterexample:
  "win32_has_events_ptr None (one_session calloc_display) = Inl NullDereference \<and>
   win32_process_events [] None (one_session calloc_display) = Inl NullDereference"
  by (simp add: win32_has_events_ptr_def deref_null)

text \<open>
  Claim C3, for the most recent move in place of the most recent move, press or
  release. While \<open>g_display\<close> points to the session, after any sequence of messages
  delivered to the window procedure \<open>win32_get_mouse\<close> returns the position carried by
  the most recent \<open>WM_MOUSEMOVE\<close>, or the position the session had before when there
  was none. Nothing is assumed of the queue: the position is stored before the push, and
  a full queue drops the event only.
\<close>

theorem mouse_follows_moves:
  assumes "g_display w = Some a" and "heap w a = Some d"
  shows "and_then (dispatch_all msgs w) (win32_get_mouse_ptr (Some a) (Some x) (Some y))
    = Inr (case last_move msgs of
             None \<Rightarrow> (Some (mouseX d), Some (mouseY d))
           | Some (mx, my) \<Rightarrow> (Some mx, Some my))"
proof -
  from dispatch_all_mouse [OF assms, of msgs]
  obtain w' d' where w': "dispatch_all msgs w = Inr w'" "heap w' a = Some d'"
    "(mouseX d', mouseY d') = (case last_move msgs of None \<Rightarrow> (mouseX d, mouseY d) | Some p \<Rightarrow> p)"
    by blast
  have "win32_get_mouse_ptr (Some a) (Some x) (Some y) w' = Inr (Some (mouseX d'), Some (mouseY d'))"
    by (simp add: win32_get_mouse_ptr_def win32_get_mouse_def deref_live [OF w'(2)])
  moreover have "(Some (mouseX d'), Some (mouseY d')) =
      (case last_move msgs of None \<Rightarrow> (Some (mouseX d), Some (mouseY d))
       | Some (mx, my) \<Rightarrow> (Some mx, Some my))"
    using w'(3) by (auto split: option.splits)
  ultimately show ?thesis by (simp add: w'(1))
qed

theorem mouse_follows_moves_witness:
  "g_display (one_session (push_all calloc_display (key_presses 63))) = Some 0 \<and>
   heap (one_session (push_all calloc_display (key_presses 63))) 0
     = Some (push_all calloc_display (key_presses 63)) \<and>
   and_then (dispatch_all [(WM_MOUSEMOVE, 0, 1310730), (WM_LBUTTONDOWN, 1, 2621470)]
       (one_session (push_all calloc_display (key_presses 63))))
     (win32_get_mouse_ptr (Some 0) (Some 0) (Some 0)) = Inr (Some 10, Some 20)"
proof -
  let ?w = "one_session (push_all calloc_display (key_presses 63))"
  have l: "last_move [(WM_MOUSEMOVE, 0, 1310730), (WM_LBUTTONDOWN, 1, 2621470)] = Some (10, 20)"
    by (simp add: LOWORD_def HIWORD_def)
  have "and_then (dispatch_all [(WM_MOUSEMOVE, 0, 1310730), (WM_LBUTTONDOWN, 1, 2621470)] ?w)
     (win32_get_mouse_ptr (Some 0) (Some 0) (Some 0)) = Inr (Some 10, Some 20)"
    using mouse_follows_moves [OF heap_one_session(2) heap_one_session(1),
      of "[(WM_MOUSEMOVE, 0, 1310730), (WM_LBUTTONDOWN, 1, 2621470)]" _ 0 0]
    unfolding l by simp
  then show ?thesis by (simp add: heap_one_session)
qed

text \<open>
  Claim C3 as stated fails: after a move to (10, 20) and a left press at (30, 40),
  \<open>win32_get_mouse\<close> returns (10, 20), not the position of the press. Button messages
  change \<open>mouseButtons\<close> and leave \<open>mouseX\<close> and \<open>mouseY\<close> alone.
\<close>

theorem mouse_press_position_counterexample:
  "and_then (dispatch_all [(WM_MOUSEMOVE, 0, 1310730), (WM_LBUTTONDOWN, 1, 2621470)]
       (one_session calloc_display))
     (win32_get_mouse_ptr (Some 0) (Some 0) (Some 0))
     \<noteq> Inr (Some (LOWORD 2621470), Some (HIWORD 2621470)) \<and>
   and_then (dispatch_all [(WM_MOUSEMOVE, 0, 1310730), (WM_LBUTTONDOWN, 1, 2621470)]
       (one_session calloc_display))
     (win32_get_mouse_ptr (Some 0) (Some 0) (Some 0)) = Inr (Some 10, Some 20) \<and>
   (LOWORD 2621470, HIWORD 2621470) = (30, 40)"
proof -
  have g: "and_then (dispatch_all [(WM_MOUSEMOVE, 0, 1310730), (WM_LBUTTONDOWN, 1, 2621470)]
       (one_session calloc_display))
     (win32_get_mouse_ptr (Some 0) (Some 0) (Some 0)) = Inr (Some 10, Some 20)"
    and p: "(LOWORD 2621470, HIWORD 2621470) = (30, 40)"
  proof -
  have l: "last_move [(WM_MOUSEMOVE, 0, 1310730), (WM_LBUTTONDOWN, 1, 2621470)] = Some (10, 20)"
    by (simp add: LOWORD_def HIWORD_def)
  show "and_then (dispatch_all [(WM_MOUSEMOVE, 0, 1310730), (WM_LBUTTONDOWN, 1, 2621470)]
       (one_session calloc_display))
     (win32_get_mouse_ptr (Some 0) (Some 0) (Some 0)) = Inr (Some 10, Some 20)"
    using dispatch_all_mouse [OF heap_one_session(2) heap_one_session(1),
      of "[(WM_MOUSEMOVE, 0, 1310730), (WM_LBUTTONDOWN, 1, 2621470)]" calloc_display]
    unfolding l
    by (auto simp: win32_get_mouse_ptr_def win32_get_mouse_def deref_live)
  show "(LOWORD 2621470, HIWORD 2621470) = (30, 40)" by (simp add: LOWORD_def HIWORD_def)
  qed
  from p have "LOWORD 2621470 = 30" by simp
  then have "and_then (dispatch_all [(WM_MOUSEMOVE, 0, 1310730), (WM_LBUTTONDOWN, 1, 2621470)]
       (one_session calloc_display))
     (win32_get_mouse_ptr (Some 0) (Some 0) (Some 0))
     \<noteq> Inr (Some (LOWORD 2621470), Some (HIWORD 2621470))"
    unfolding g by simp
  with g p show ?thesis by (intro conjI)
qed

text \<open>
  Claim C8. While \<open>g_display\<close> points to the session, the press message of button
  \<open>b\<close> in \<open>{1, 2, 3}\<close> sets \<open>mouseButtons\<close> to \<open>mouseButtons OR button_mask b\<close> and
  pushes a \<open>WIN32_EVENT_MOUSE_PRESS\<close> event with button \<open>b\<close> and the position in
  \<open>lParam\<close>; the release message sets \<open>mouseButtons\<close> to
  \<open>mouseButtons AND NOT (button_mask b)\<close> and pushes the \<open>WIN32_EVENT_MOUSE_RELEASE\<close>
  event. Afterwards bit \<open>b - 1\<close> of the mask is set, respectively clear, and every
  other bit is as before. The push appends the event to the pending events unless 63 are
  pending already.
\<close>

theorem mouse_button_translation:
  assumes "b \<in> {1, 2, 3}" and "g_display w = Some a" and "heap w a = Some d"
  shows
   "win32_window_proc (button_down b) wParam lParam w =
      Inr (w\<lparr>heap := (heap w)(a \<mapsto>
        win32_push_event (d\<lparr>mouseButtons := mouseButtons d OR button_mask b\<rparr>)
          (mouse_event WIN32_EVENT_MOUSE_PRESS b (LOWORD lParam) (HIWORD lParam)))\<rparr>) \<and>
    win32_window_proc (button_up b) wParam lParam w =
      Inr (w\<lparr>heap := (heap w)(a \<mapsto>
        win32_push_event (d\<lparr>mouseButtons := mouseButtons d AND NOT (button_mask b)\<rparr>)
          (mouse_event WIN32_EVENT_MOUSE_RELEASE b (LOWORD lParam) (HIWORD lParam)))\<rparr>) \<and>
    (\<forall>e n. bit (mouseButtons (win32_push_event (d\<lparr>mouseButtons := mouseButtons d OR button_mask b\<rparr>) e)) n
       \<longleftrightarrow> n = nat (b - 1) \<or> bit (mouseButtons d) n) \<and>
    (\<forall>e n. bit (mouseButtons (win32_push_event (d\<lparr>mouseButtons := mouseButtons d AND NOT (button_mask b)\<rparr>) e)) n
       \<longleftrightarrow> n \<noteq> nat (b - 1) \<and> bit (mouseButtons d) n) \<and>
    (\<forall>m e. queue_ok d \<longrightarrow> pending (win32_push_event (d\<lparr>mouseButtons := m\<rparr>) e)
       = (if length (pending d) = 63 then pending d else pending d @ [e]))"
proof (intro conjI allI impI)
  from assms(1) have b: "b = 1 \<or> b = 2 \<or> b = 3" by simp
  then have pos: "0 < b" by auto
  from b show "win32_window_proc (button_down b) wParam lParam w =
      Inr (w\<lparr>heap := (heap w)(a \<mapsto>
        win32_push_event (d\<lparr>mouseButtons := mouseButtons d OR button_mask b\<rparr>)
          (mouse_event WIN32_EVENT_MOUSE_PRESS b (LOWORD lParam) (HIWORD lParam)))\<rparr>)"
    by (auto simp: button_down_def button_mask_values mouse_event_def if_display_live [OF assms(2,3)])
  from b show "win32_window_proc (button_up b) wParam lParam w =
      Inr (w\<lparr>heap := (heap w)(a \<mapsto>
        win32_push_event (d\<lparr>mouseButtons := mouseButtons d AND NOT (button_mask b)\<rparr>)
          (mouse_event WIN32_EVENT_MOUSE_RELEASE b (LOWORD lParam) (HIWORD lParam)))\<rparr>)"
    by (auto simp: button_up_def button_mask_values mouse_event_def if_display_live [OF assms(2,3)])
  show "bit (mouseButtons (win32_push_event (d\<lparr>mouseButtons := mouseButtons d OR button_mask b\<rparr>) e)) n
       \<longleftrightarrow> n = nat (b - 1) \<or> bit (mouseButtons d) n" for e n
    using bit_button_mask [OF pos, of n] by (auto simp: bit_or_iff)
  show "bit (mouseButtons (win32_push_event (d\<lparr>mouseButtons := mouseButtons d AND NOT (button_mask b)\<rparr>) e)) n
       \<longleftrightarrow> n \<noteq> nat (b - 1) \<and> bit (mouseButtons d) n" for e n
    using bit_button_mask [OF pos, of n] by (auto simp: bit_and_iff bit_not_iff)
  show "pending (win32_push_event (d\<lparr>mouseButtons := m\<rparr>) e)
       = (if length (pending d) = 63 then pending d else pending d @ [e])" if "queue_ok d" for m e
    using push_pending_cases [of "d\<lparr>mouseButtons := m\<rparr>" e] that by simp
qed


theorem mouse_button_translation_witness:
  "(3::int) \<in> {1, 2, 3} \<and>
   g_display (one_session calloc_display) = Some 0 \<and>
   heap (one_session calloc_display) 0 = Some calloc_display \<and>
   win32_window_proc (button_down 3) 0 2621470 (one_session calloc_display) =
      Inr (one_session calloc_display\<lparr>heap := (heap (one_session calloc_display))(0 \<mapsto>
        win32_push_event (calloc_display\<lparr>mouseButtons := mouseButtons calloc_display OR button_mask 3\<rparr>)
          (mouse_event WIN32_EVENT_MOUSE_PRESS 3 (LOWORD 2621470) (HIWORD 2621470)))\<rparr>) \<and>
   win32_window_proc (button_up 3) 0 2621470 (one_session calloc_display) =
      Inr (one_session calloc_display\<lparr>heap := (heap (one_session calloc_display))(0 \<mapsto>
        win32_push_event (calloc_display\<lparr>mouseButtons := mouseButtons calloc_display AND NOT (button_mask 3)\<rparr>)
          (mouse_event WIN32_EVENT_MOUSE_RELEASE 3 (LOWORD 2621470) (HIWORD 2621470)))\<rparr>) \<and>
   queue_ok calloc_display \<and>
   pending (win32_push_event (calloc_display\<lparr>mouseButtons := 4\<rparr>)
       (mouse_event WIN32_EVENT_MOUSE_PRESS 3 30 40))
     = [mouse_event WIN32_EVENT_MOUSE_PRESS 3 30 40]"
proof -
  have b: "(3::int) \<in> {1, 2, 3}" by simp
  note t = mouse_button_translation [OF b heap_one_session(2) [of calloc_display]
    heap_one_session(1) [of calloc_display], of 0 2621470]
  have "queue_ok calloc_display \<longrightarrow>
     pending (win32_push_event (calloc_display\<lparr>mouseButtons := 4\<rparr>)
       (mouse_event WIN32_EVENT_MOUSE_PRESS 3 30 40))
     = (if length (pending calloc_display) = 63 then pending calloc_display
        else pending calloc_display @ [mouse_event WIN32_EVENT_MOUSE_PRESS 3 30 40])"
    using t [THEN conjunct2, THEN conjunct2, THEN conjunct2, THEN conjunct2] by blast
  then have p: "pending (win32_push_event (calloc_display\<lparr>mouseButtons := 4\<rparr>)
       (mouse_event WIN32_EVENT_MOUSE_PRESS 3 30 40))
     = [mouse_event WIN32_EVENT_MOUSE_PRESS 3 30 40]"
    using queue_ok_calloc by (simp add: pending_calloc)
  show ?thesis
    by (intro conjI) (rule b heap_one_session queue_ok_calloc p t [THEN conjunct1]
      t [THEN conjunct2, THEN conjunct1])+
qed

end
